theory Spec2Isabelle
  imports Complex_Main
begin

section \<open>JavaScript dates\<close>

text \<open>
  The views work on JavaScript \<open>Date\<close> objects. A \<open>Date\<close> holds a time value in
  milliseconds; every accessor the sources use (\<open>getFullYear\<close>, \<open>getMonth\<close>, \<open>getDate\<close>,
  \<open>getDay\<close>, \<open>setDate\<close>, the three-argument constructor) works on the local time
  \<open>LocalTime(t)\<close>. The methods of this section are those of a zone with one constant UTC
  offset: there \<open>LocalTime\<close> and \<open>UTC\<close> cancel, and the model keeps the local time value
  itself, an integer number of milliseconds since the local epoch 1970-01-01T00:00. The methods
  that carry a time zone with a daylight-saving transition (\<open>getDate_tz\<close>, \<open>setDate_tz\<close>,
  \<open>newDate_tz\<close>) follow with the day walk that depends on them; in a zone with constant offset
  they are the methods of this section (lemma \<open>fixedZone_methods\<close>). Invalid dates (time
  value \<open>NaN\<close>) and the \<open>TimeClip\<close> range limit of \<open>8.64e15\<close> ms are outside the model.
  The functions below are the abstract operations of ECMA-262, section "Date Objects", under
  their names there.
\<close>

type_synonym Date = int

definition msPerDay :: int where
  "msPerDay = 86400000"

definition Day :: "int \<Rightarrow> int" where
  "Day t = t div msPerDay"

definition TimeWithinDay :: "int \<Rightarrow> int" where
  "TimeWithinDay t = t mod msPerDay"

definition DaysInYear :: "int \<Rightarrow> int" where
  "DaysInYear y = (if y mod 4 \<noteq> 0 then 365 else if y mod 100 \<noteq> 0 then 366
                   else if y mod 400 \<noteq> 0 then 365 else 366)"

definition DayFromYear :: "int \<Rightarrow> int" where
  "DayFromYear y = 365 * (y - 1970) + (y - 1969) div 4 - (y - 1901) div 100 + (y - 1601) div 400"

text \<open>
  ECMA-262 defines \<open>YearFromTime(t)\<close> as the largest \<open>y\<close> with \<open>TimeFromYear(y) \<le> t\<close>.
  \<open>YearFromDay\<close> computes it: the estimate from the mean length of a Gregorian year is off by
  at most one, and is corrected against \<open>DayFromYear\<close>; lemma \<open>YearFromDay_bounds\<close> below shows
  that the result is the year the standard describes.
\<close>

definition YearFromDay :: "int \<Rightarrow> int" where
  "YearFromDay n =
     (let y = 1970 + (400 * n) div 146097
      in if DayFromYear (y + 1) \<le> n then y + 1
         else if n < DayFromYear y then y - 1
         else y)"

definition YearFromTime :: "int \<Rightarrow> int" where
  "YearFromTime t = YearFromDay (Day t)"

definition InLeapYear :: "int \<Rightarrow> int" where
  "InLeapYear t = (if DaysInYear (YearFromTime t) = 366 then 1 else 0)"

definition DayWithinYear :: "int \<Rightarrow> int" where
  "DayWithinYear t = Day t - DayFromYear (YearFromTime t)"

definition MonthFromTime :: "int \<Rightarrow> int" where
  "MonthFromTime t =
     (let d = DayWithinYear t; l = InLeapYear t
      in if d < 31 then 0
         else if d < 59 + l then 1
         else if d < 90 + l then 2
         else if d < 120 + l then 3
         else if d < 151 + l then 4
         else if d < 181 + l then 5
         else if d < 212 + l then 6
         else if d < 243 + l then 7
         else if d < 273 + l then 8
         else if d < 304 + l then 9
         else if d < 334 + l then 10
         else 11)"

definition DateFromTime :: "int \<Rightarrow> int" where
  "DateFromTime t =
     (let d = DayWithinYear t; l = InLeapYear t; m = MonthFromTime t
      in if m = 0 then d + 1
         else if m = 1 then d - 30
         else if m = 2 then d - 58 - l
         else if m = 3 then d - 89 - l
         else if m = 4 then d - 119 - l
         else if m = 5 then d - 150 - l
         else if m = 6 then d - 180 - l
         else if m = 7 then d - 211 - l
         else if m = 8 then d - 242 - l
         else if m = 9 then d - 272 - l
         else if m = 10 then d - 303 - l
         else d - 333 - l)"

definition WeekDay :: "int \<Rightarrow> int" where
  "WeekDay t = (Day t + 4) mod 7"

text \<open>
  \<open>MakeDay(year, month, date)\<close>: the day number of the first of the month
  \<open>(year + month div 12, month mod 12)\<close>, plus \<open>date - 1\<close>. Month and date out of range carry
  over, which is what \<open>setDate(getDate() + 1)\<close> and \<open>new Date(y, m + 1, 0)\<close> rely on.
\<close>

definition monthStart :: "int \<Rightarrow> int \<Rightarrow> int" where
  "monthStart mn l =
     (if mn = 0 then 0
      else if mn = 1 then 31
      else if mn = 2 then 59 + l
      else if mn = 3 then 90 + l
      else if mn = 4 then 120 + l
      else if mn = 5 then 151 + l
      else if mn = 6 then 181 + l
      else if mn = 7 then 212 + l
      else if mn = 8 then 243 + l
      else if mn = 9 then 273 + l
      else if mn = 10 then 304 + l
      else 334 + l)"

definition MakeDay :: "int \<Rightarrow> int \<Rightarrow> int \<Rightarrow> int" where
  "MakeDay year month date =
     (let ym = year + month div 12; mn = month mod 12
      in DayFromYear ym + monthStart mn (if DaysInYear ym = 366 then 1 else 0) + date - 1)"

definition MakeDate :: "int \<Rightarrow> int \<Rightarrow> int" where
  "MakeDate day time = day * msPerDay + time"

text \<open>
  \<open>MakeFullYear\<close>: the \<open>Date\<close> constructor with components reads a year from 0 to 99 as
  1900 + year.
\<close>

definition MakeFullYear :: "int \<Rightarrow> int" where
  "MakeFullYear y = (if 0 \<le> y \<and> y \<le> 99 then 1900 + y else y)"



subsection \<open>The methods of \<open>Date\<close> the sources call\<close>

definition getFullYear :: "Date \<Rightarrow> int" where
  "getFullYear d = YearFromTime d"

definition getMonth :: "Date \<Rightarrow> int" where
  "getMonth d = MonthFromTime d"

definition getDate :: "Date \<Rightarrow> int" where
  "getDate d = DateFromTime d"

definition getDay :: "Date \<Rightarrow> int" where
  "getDay d = WeekDay d"

definition getTime :: "Date \<Rightarrow> int" where
  "getTime d = d"

text \<open>\<open>new Date(year, month, day)\<close>: local midnight of that day.\<close>

definition newDate :: "int \<Rightarrow> int \<Rightarrow> int \<Rightarrow> Date" where
  "newDate year month day = MakeDate (MakeDay (MakeFullYear year) month day) 0"

text \<open>\<open>d.setDate(n)\<close>: the day of the month is replaced, the time within the day is kept.\<close>

definition setDate :: "Date \<Rightarrow> int \<Rightarrow> Date" where
  "setDate d n = MakeDate (MakeDay (YearFromTime d) (MonthFromTime d) n) (TimeWithinDay d)"

subsection \<open>Calendar arithmetic\<close>

lemma div_lo: "(0::int) < k \<Longrightarrow> k * (a div k) \<le> a"
proof -
  assume k: "0 < k"
  have "a = k * (a div k) + a mod k" by simp
  moreover have "0 \<le> a mod k" using k by simp
  ultimately show ?thesis by linarith
qed

lemma div_hi: "(0::int) < k \<Longrightarrow> a < k * (a div k) + k"
proof -
  assume k: "0 < k"
  have "a = k * (a div k) + a mod k" by simp
  moreover have "a mod k < k" using k by simp
  ultimately show ?thesis by linarith
qed

lemma div_succ:
  "0 < (k::int) \<Longrightarrow> (a + 1) div k = a div k + (if (a + 1) mod k = 0 then 1 else 0)"
proof -
  assume k: "0 < k"
  define q where "q = a div k"
  define r where "r = a mod k"
  have a: "a = k * q + r" unfolding q_def r_def by simp
  have r: "0 \<le> r" "r < k" unfolding r_def using k by simp_all
  show ?thesis
  proof (cases "r + 1 = k")
    case True
    then have e: "a + 1 = k * (q + 1) + 0" using a by (simp add: algebra_simps)
    have "(a + 1) div k = q + 1" by (rule int_div_pos_eq[OF e]) (use k in simp_all)
    moreover have "(a + 1) mod k = 0" by (rule int_mod_pos_eq[OF e]) (use k in simp_all)
    ultimately show ?thesis unfolding q_def by simp
  next
    case False
    then have e: "a + 1 = k * q + (r + 1)" using a by simp
    have r1: "0 \<le> r + 1" "r + 1 < k" using r False by simp_all
    have "(a + 1) div k = q" by (rule int_div_pos_eq[OF e r1])
    moreover have "(a + 1) mod k = r + 1" by (rule int_mod_pos_eq[OF e r1])
    ultimately show ?thesis unfolding q_def using r by simp
  qed
qed

lemma year_estimate_lo: "DayFromYear (1969 + (400 * n) div 146097) \<le> n"
proof -
  define q where "q = (400 * n) div 146097"
  define a where "a = q div 4"
  define b where "b = (q + 68) div 100"
  define c where "c = (q + 368) div 400"
  have q: "146097 * q \<le> 400 * n" unfolding q_def by (rule div_lo) simp
  have a: "4 * a \<le> q" unfolding a_def by (rule div_lo) simp
  have b: "q + 68 < 100 * b + 100" unfolding b_def by (rule div_hi) simp
  have c: "400 * c \<le> q + 368" unfolding c_def by (rule div_lo) simp
  have e: "DayFromYear (1969 + q) = 365 * (q - 1) + a - b + c"
    unfolding DayFromYear_def a_def b_def c_def by (simp add: add.commute)
  have a': "400 * a \<le> 100 * q" using a by simp
  have b': "4 * q + 272 < 400 * b + 400" using b by simp
  have "400 * (365 * (q - 1) + a - b + c) \<le> 400 * n" using a' b' q c by simp
  then have "365 * (q - 1) + a - b + c \<le> n" by simp
  then show ?thesis unfolding q_def[symmetric] e .
qed

lemma year_estimate_hi: "n < DayFromYear (1972 + (400 * n) div 146097)"
proof -
  define q where "q = (400 * n) div 146097"
  define a where "a = (q + 3) div 4"
  define b where "b = (q + 71) div 100"
  define c where "c = (q + 371) div 400"
  have q: "400 * n < 146097 * q + 146097" unfolding q_def by (rule div_hi) simp
  have a: "q + 3 < 4 * a + 4" unfolding a_def by (rule div_hi) simp
  have b: "100 * b \<le> q + 71" unfolding b_def by (rule div_lo) simp
  have c: "q + 371 < 400 * c + 400" unfolding c_def by (rule div_hi) simp
  have e: "DayFromYear (1972 + q) = 365 * (q + 2) + a - b + c"
    unfolding DayFromYear_def a_def b_def c_def by (simp add: add.commute)
  have a': "100 * q + 300 < 400 * a + 400" using a by simp
  have b': "400 * b \<le> 4 * q + 284" using b by simp
  have "400 * n < 400 * (365 * (q + 2) + a - b + c)" using a' b' q c by simp
  then have "n < 365 * (q + 2) + a - b + c" by simp
  then show ?thesis unfolding q_def[symmetric] e .
qed

lemma DayFromYear_Suc: "DayFromYear (y + 1) = DayFromYear y + DaysInYear y"
proof -
  have m4: "((y - 1968) mod 4 = 0) = (y mod 4 = 0)"
    by (simp add: mod_eq_0_iff_dvd dvd_diff_left_iff)
  have m100: "((y - 1900) mod 100 = 0) = (y mod 100 = 0)"
    by (simp add: mod_eq_0_iff_dvd dvd_diff_left_iff)
  have m400: "((y - 1600) mod 400 = 0) = (y mod 400 = 0)"
    by (simp add: mod_eq_0_iff_dvd dvd_diff_left_iff)
  have d4: "(y - 1968) div 4 = (y - 1969) div 4 + (if y mod 4 = 0 then 1 else 0)"
    using div_succ[of 4 "y - 1969"] m4 by simp
  have d100: "(y - 1900) div 100 = (y - 1901) div 100 + (if y mod 100 = 0 then 1 else 0)"
    using div_succ[of 100 "y - 1901"] m100 by simp
  have d400: "(y - 1600) div 400 = (y - 1601) div 400 + (if y mod 400 = 0 then 1 else 0)"
    using div_succ[of 400 "y - 1601"] m400 by simp
  have i1: "y mod 400 = 0 \<Longrightarrow> y mod 100 = 0"
    by (simp add: mod_eq_0_iff_dvd) (rule dvd_trans[of 100 400], simp_all)
  have i2: "y mod 100 = 0 \<Longrightarrow> y mod 4 = 0"
    by (simp add: mod_eq_0_iff_dvd) (rule dvd_trans[of 4 100], simp_all)
  have e: "DayFromYear (y + 1) =
          365 * (y - 1969) + (y - 1968) div 4 - (y - 1900) div 100 + (y - 1600) div 400"
    unfolding DayFromYear_def by simp
  define A where "A = (y - 1969) div 4"
  define B where "B = (y - 1901) div 100"
  define C where "C = (y - 1601) div 400"
  have f: "DayFromYear y = 365 * (y - 1970) + A - B + C"
    unfolding DayFromYear_def A_def B_def C_def by simp
  show ?thesis
    unfolding e f DaysInYear_def d4 d100 d400 A_def[symmetric] B_def[symmetric] C_def[symmetric]
    using i1 i2 by (cases "y mod 4 = 0"; cases "y mod 100 = 0"; cases "y mod 400 = 0") simp_all
qed

lemma YearFromDay_bounds:
  "DayFromYear (YearFromDay n) \<le> n \<and> n < DayFromYear (YearFromDay n + 1)"
proof -
  define y where "y = 1970 + (400 * n) div 146097"
  have lo: "DayFromYear (y - 1) \<le> n"
    using year_estimate_lo[of n] unfolding y_def by simp
  have hi: "n < DayFromYear (y + 1 + 1)"
    using year_estimate_hi[of n] unfolding y_def by simp
  have Y: "YearFromDay n = (if DayFromYear (y + 1) \<le> n then y + 1
                            else if n < DayFromYear y then y - 1 else y)"
    unfolding YearFromDay_def y_def Let_def by simp
  show ?thesis
  proof (cases "DayFromYear (y + 1) \<le> n")
    case True
    then show ?thesis using Y hi by simp
  next
    case False
    show ?thesis
    proof (cases "n < DayFromYear y")
      case True
      then show ?thesis using Y False lo by simp
    next
      case F2: False
      then show ?thesis using Y False by simp
    qed
  qed
qed



lemma DayWithinYear_range:
  "0 \<le> DayWithinYear t \<and> DayWithinYear t < DaysInYear (YearFromTime t)"
  using YearFromDay_bounds[of "Day t"] DayFromYear_Suc[of "YearFromDay (Day t)"]
  unfolding DayWithinYear_def YearFromTime_def by linarith

text \<open>The day of a time value is rebuilt from its year, month and date.\<close>

lemma MakeDay_civil:
  "MakeDay (YearFromTime t) (MonthFromTime t) (DateFromTime t + k) = Day t + k"
proof -
  define d where "d = DayWithinYear t"
  define l where "l = InLeapYear t"
  have r: "0 \<le> d" "d < DaysInYear (YearFromTime t)"
    using DayWithinYear_range[of t] unfolding d_def by simp_all
  have l: "(if DaysInYear (YearFromTime t) = 366 then 1 else 0) = l"
    unfolding l_def InLeapYear_def by simp
  have m: "0 \<le> MonthFromTime t" "MonthFromTime t < 12"
    unfolding MonthFromTime_def Let_def by simp_all
  have md: "MonthFromTime t div 12 = 0" "MonthFromTime t mod 12 = MonthFromTime t"
    using m by simp_all
  have "monthStart (MonthFromTime t) l + DateFromTime t - 1 = d"
    unfolding monthStart_def DateFromTime_def MonthFromTime_def Let_def
      d_def[symmetric] l_def[symmetric]
    by simp
  moreover have "Day t = DayFromYear (YearFromTime t) + d"
    unfolding d_def DayWithinYear_def by simp
  ultimately show ?thesis
    unfolding MakeDay_def Let_def md by (simp add: l)
qed

lemma TimeWithinDay_range: "0 \<le> TimeWithinDay t \<and> TimeWithinDay t < msPerDay"
  unfolding TimeWithinDay_def msPerDay_def by simp

lemma Day_TimeWithinDay: "Day t * msPerDay + TimeWithinDay t = t"
  unfolding Day_def TimeWithinDay_def by simp

lemma Day_MakeDate: "0 \<le> s \<Longrightarrow> s < msPerDay \<Longrightarrow> Day (MakeDate n s) = n"
  unfolding Day_def MakeDate_def msPerDay_def
  by (rule int_div_pos_eq[of _ _ _ s]) simp_all

lemma TimeWithinDay_MakeDate:
  "0 \<le> s \<Longrightarrow> s < msPerDay \<Longrightarrow> TimeWithinDay (MakeDate n s) = s"
  unfolding TimeWithinDay_def MakeDate_def msPerDay_def
  by (rule int_mod_pos_eq[of _ _ n]) simp_all

text \<open>\<open>setDate(getDate() + k)\<close> moves a date by exactly \<open>k\<close> calendar days.\<close>

lemma setDate_shift: "setDate d (getDate d + k) = d + k * msPerDay"
proof -
  have "setDate d (getDate d + k) = (Day d + k) * msPerDay + TimeWithinDay d"
    unfolding setDate_def getDate_def MakeDate_def MakeDay_civil by simp
  also have "\<dots> = d + k * msPerDay"
    using Day_TimeWithinDay[of d] by (simp add: algebra_simps)
  finally show ?thesis .
qed

subsection \<open>From a year, a month and a date back to the day\<close>













section \<open>Strings the sources build\<close>

text \<open>
  \<open>String(n)\<close> and \<open>`${n}`\<close> of an integer \<open>n\<close>: its decimal digits, after a minus sign
  when it is negative. \<open>s.padStart(n, c)\<close> for a one-character pad \<open>c\<close>.
\<close>

definition digitChar :: "nat \<Rightarrow> char" where
  "digitChar n = ''0123456789'' ! n"

fun showNat :: "nat \<Rightarrow> string" where
  "showNat n = (if n < 10 then [digitChar n] else showNat (n div 10) @ [digitChar (n mod 10)])"

declare showNat.simps [simp del]

definition toString :: "int \<Rightarrow> string" where
  "toString i = (if i < 0 then CHR ''-'' # showNat (nat (- i)) else showNat (nat i))"

definition padStart :: "nat \<Rightarrow> char \<Rightarrow> string \<Rightarrow> string" where
  "padStart n c s = replicate (n - length s) c @ s"

section \<open>The range-to-day-map projector (LinearReactView, \<open>useMemo\<close>)\<close>

definition dateKey :: "int \<Rightarrow> int \<Rightarrow> int \<Rightarrow> string" where
  "dateKey year month day =
     toString year @ ''-'' @ padStart 2 (CHR ''0'') (toString (month + 1)) @ ''-'' @
     padStart 2 (CHR ''0'') (toString day)"

text \<open>
  \<open>new Date(d.getFullYear(), d.getMonth(), d.getDate())\<close>, the expression by which both views
  drop the time of day.
\<close>

definition dateOnly :: "Date \<Rightarrow> Date" where
  "dateOnly d = newDate (getFullYear d) (getMonth d) (getDate d)"

record 'e LinearEntry =
  entry :: 'e
  startDate :: Date
  endDate :: "Date option"

type_synonym 'e DayMap = "string \<rightharpoonup> 'e LinearEntry list"

text \<open>\<open>if (!map.has(key)) map.set(key, []); map.get(key)?.push(entry)\<close>\<close>

definition pushEntry :: "'e DayMap \<Rightarrow> string \<Rightarrow> 'e LinearEntry \<Rightarrow> 'e DayMap" where
  "pushEntry m key e =
     (let m1 = (if m key = None then m(key \<mapsto> []) else m)
      in case m1 key of None \<Rightarrow> m1 | Some l \<Rightarrow> m1(key \<mapsto> l @ [e]))"

definition keyOfDate :: "Date \<Rightarrow> string" where
  "keyOfDate iter = dateKey (getFullYear iter) (getMonth iter) (getDate iter)"

text \<open>The \<open>while (iter <= end)\<close> loop.\<close>

function walkDays :: "'e LinearEntry \<Rightarrow> Date \<Rightarrow> Date \<Rightarrow> 'e DayMap \<Rightarrow> 'e DayMap" where
  "walkDays e endD iter m =
     (if iter \<le> endD
      then walkDays e endD (setDate iter (getDate iter + 1)) (pushEntry m (keyOfDate iter) e)
      else m)"
  by pat_completeness auto
termination
  by (relation "measure (\<lambda>(e, endD, iter, m). nat (endD - iter + 1))")
     (auto simp: setDate_shift msPerDay_def)

declare walkDays.simps [simp del]

text \<open>\<open>a ?? b\<close>\<close>

definition nullish :: "'a option \<Rightarrow> 'a \<Rightarrow> 'a" where
  "nullish a b = (case a of None \<Rightarrow> b | Some v \<Rightarrow> v)"

record 'e projection =
  dayMap :: "'e DayMap"
  minYear :: "int option"
  maxYear :: "int option"

definition entryStart :: "'e LinearEntry \<Rightarrow> Date" where
  "entryStart e = dateOnly (startDate e)"

definition entryEnd :: "'e LinearEntry \<Rightarrow> Date" where
  "entryEnd e = (case endDate e of Some ed \<Rightarrow> dateOnly ed | None \<Rightarrow> entryStart e)"

text \<open>One iteration of \<open>for (const entry of entries)\<close>.\<close>

definition projectEntry :: "'e projection \<Rightarrow> 'e LinearEntry \<Rightarrow> 'e projection" where
  "projectEntry st e =
     (let start = entryStart e; endD = entryEnd e
      in if endD < start then st
         else
           let m = walkDays e endD start (dayMap st);
               y = getFullYear (startDate e);
               minYear1 = (case minYear st of None \<Rightarrow> y | Some v \<Rightarrow> min v y);
               maxYear1 = (case maxYear st of None \<Rightarrow> y | Some v \<Rightarrow> max v y)
           in case endDate e of
                None \<Rightarrow> \<lparr>dayMap = m, minYear = Some minYear1, maxYear = Some maxYear1\<rparr>
              | Some ed \<Rightarrow>
                  \<lparr>dayMap = m,
                   minYear = Some (min (nullish (Some minYear1) (getFullYear ed)) (getFullYear ed)),
                   maxYear = Some (max (nullish (Some maxYear1) (getFullYear ed)) (getFullYear ed))\<rparr>)"

definition projectAll :: "'e LinearEntry list \<Rightarrow> 'e projection" where
  "projectAll entries =
     foldl projectEntry \<lparr>dayMap = Map.empty, minYear = None, maxYear = None\<rparr> entries"

definition entriesByDate :: "'e LinearEntry list \<Rightarrow> 'e DayMap" where
  "entriesByDate entries = dayMap (projectAll entries)"

text \<open>The year list; \<open>thisYear\<close> stands for \<open>new Date().getFullYear()\<close>.\<close>

definition years :: "int \<Rightarrow> 'e LinearEntry list \<Rightarrow> int list" where
  "years thisYear entries =
     (let st = projectAll entries;
          resolvedMin = nullish (minYear st) thisYear;
          resolvedMax = nullish (maxYear st) resolvedMin
      in [resolvedMin..resolvedMax])"

text \<open>What \<open>entriesByDate.get(key)\<close> lists, with no list for an absent key.\<close>

definition bucket :: "'e DayMap \<Rightarrow> string \<Rightarrow> 'e LinearEntry list" where
  "bucket m k = (case m k of None \<Rightarrow> [] | Some l \<Rightarrow> l)"

definition skipped :: "'e LinearEntry \<Rightarrow> bool" where
  "skipped e = (entryEnd e < entryStart e)"

definition dayKeys :: "'e LinearEntry \<Rightarrow> string set" where
  "dayKeys e = (\<lambda>n. keyOfDate (MakeDate n 0)) ` {Day (entryStart e)..Day (entryEnd e)}"

subsection \<open>The loop\<close>

lemma bucket_pushEntry:
  "bucket (pushEntry m key e) k = (if k = key then bucket m k @ [e] else bucket m k)"
  unfolding bucket_def pushEntry_def Let_def by (simp split: option.splits)

lemma walkDays_bucket:
  "set (bucket (walkDays e endD iter m) k) =
     set (bucket m k) \<union>
     {x. x = e \<and> (\<exists>j::nat. iter + int j * msPerDay \<le> endD \<and> keyOfDate (iter + int j * msPerDay) = k)}"
proof (induction e endD iter m rule: walkDays.induct)
  case (1 e endD iter m)
  show ?case
  proof (cases "iter \<le> endD")
    case True
    have step: "setDate iter (getDate iter + 1) = iter + msPerDay"
      using setDate_shift[of iter 1] by simp
    have w: "walkDays e endD iter m =
               walkDays e endD (iter + msPerDay) (pushEntry m (keyOfDate iter) e)"
      using True walkDays.simps[of e endD iter m] step by simp
    have ex: "(\<exists>j::nat. iter + int j * msPerDay \<le> endD \<and> keyOfDate (iter + int j * msPerDay) = k)
          \<longleftrightarrow> keyOfDate iter = k \<or>
              (\<exists>j::nat. iter + msPerDay + int j * msPerDay \<le> endD \<and>
                         keyOfDate (iter + msPerDay + int j * msPerDay) = k)"
      (is "?L \<longleftrightarrow> ?A \<or> ?R")
    proof
      assume ?L
      then obtain j :: nat where j: "iter + int j * msPerDay \<le> endD"
        "keyOfDate (iter + int j * msPerDay) = k" by blast
      show "?A \<or> ?R"
      proof (cases j)
        case 0
        then show ?thesis using j by simp
      next
        case (Suc j')
        have "iter + int j * msPerDay = iter + msPerDay + int j' * msPerDay"
          unfolding Suc by (simp add: algebra_simps)
        then show ?thesis using j by metis
      qed
    next
      assume "?A \<or> ?R"
      then show ?L
      proof
        assume ?A
        then have "iter + int 0 * msPerDay \<le> endD \<and> keyOfDate (iter + int 0 * msPerDay) = k"
          using True by simp
        then show ?L by blast
      next
        assume ?R
        then obtain j :: nat where j: "iter + msPerDay + int j * msPerDay \<le> endD"
          "keyOfDate (iter + msPerDay + int j * msPerDay) = k" by blast
        have "iter + int (Suc j) * msPerDay = iter + msPerDay + int j * msPerDay"
          by (simp add: algebra_simps)
        then show ?L using j by metis
      qed
    qed
    have IH: "set (bucket (walkDays e endD (iter + msPerDay) (pushEntry m (keyOfDate iter) e)) k) =
       set (bucket (pushEntry m (keyOfDate iter) e) k) \<union>
       {x. x = e \<and> (\<exists>j::nat. iter + msPerDay + int j * msPerDay \<le> endD \<and>
                      keyOfDate (iter + msPerDay + int j * msPerDay) = k)}"
      using "1.IH"[OF True] unfolding step .
    show ?thesis unfolding w IH ex bucket_pushEntry by auto
  next
    case False
    have w: "walkDays e endD iter m = m"
      using False walkDays.simps[of e endD iter m] by simp
    have "\<not> (\<exists>j::nat. iter + int j * msPerDay \<le> endD \<and> keyOfDate (iter + int j * msPerDay) = k)"
    proof
      assume "\<exists>j::nat. iter + int j * msPerDay \<le> endD \<and> keyOfDate (iter + int j * msPerDay) = k"
      then obtain j :: nat where "iter + int j * msPerDay \<le> endD" by blast
      moreover have "0 \<le> int j * msPerDay" unfolding msPerDay_def by simp
      ultimately show False using False by linarith
    qed
    then show ?thesis unfolding w by auto
  qed
qed

lemma newDate_midnight:
  "Day (newDate y m d) = MakeDay (MakeFullYear y) m d"
  "TimeWithinDay (newDate y m d) = 0"
  "newDate y m d = MakeDate (Day (newDate y m d)) 0"
proof -
  show a: "Day (newDate y m d) = MakeDay (MakeFullYear y) m d"
    unfolding newDate_def by (rule Day_MakeDate) (simp_all add: msPerDay_def)
  show "TimeWithinDay (newDate y m d) = 0"
    unfolding newDate_def by (rule TimeWithinDay_MakeDate) (simp_all add: msPerDay_def)
  show "newDate y m d = MakeDate (Day (newDate y m d)) 0"
    unfolding a unfolding newDate_def ..
qed

lemma dateOnly_midnight:
  "TimeWithinDay (dateOnly d) = 0" "dateOnly d = MakeDate (Day (dateOnly d)) 0"
  unfolding dateOnly_def using newDate_midnight by simp_all

lemma entry_midnight:
  "entryStart e = MakeDate (Day (entryStart e)) 0" "entryEnd e = MakeDate (Day (entryEnd e)) 0"
  unfolding entryStart_def entryEnd_def using dateOnly_midnight(2)
  by (simp_all split: option.splits)

lemma MakeDate_le: "MakeDate a 0 \<le> MakeDate b 0 \<longleftrightarrow> a \<le> b"
  unfolding MakeDate_def msPerDay_def by simp

lemma walk_keys:
  "(\<exists>j::nat. MakeDate a 0 + int j * msPerDay \<le> MakeDate b 0 \<and>
              keyOfDate (MakeDate a 0 + int j * msPerDay) = k)
   \<longleftrightarrow> k \<in> (\<lambda>n. keyOfDate (MakeDate n 0)) ` {a..b}"
proof
  assume "\<exists>j::nat. MakeDate a 0 + int j * msPerDay \<le> MakeDate b 0 \<and>
              keyOfDate (MakeDate a 0 + int j * msPerDay) = k"
  then obtain j :: nat where j: "MakeDate a 0 + int j * msPerDay \<le> MakeDate b 0"
     "keyOfDate (MakeDate a 0 + int j * msPerDay) = k" by blast
  have e: "MakeDate a 0 + int j * msPerDay = MakeDate (a + int j) 0"
    unfolding MakeDate_def by (simp add: algebra_simps)
  have "a + int j \<le> b" using j(1) unfolding e MakeDate_le .
  then have "a + int j \<in> {a..b}" by simp
  then show "k \<in> (\<lambda>n. keyOfDate (MakeDate n 0)) ` {a..b}" using j(2) unfolding e by blast
next
  assume "k \<in> (\<lambda>n. keyOfDate (MakeDate n 0)) ` {a..b}"
  then obtain n where n: "a \<le> n" "n \<le> b" "k = keyOfDate (MakeDate n 0)" by auto
  define j where "j = nat (n - a)"
  have e: "MakeDate a 0 + int j * msPerDay = MakeDate n 0"
    unfolding MakeDate_def j_def using n(1) by (simp add: algebra_simps)
  have "MakeDate a 0 + int j * msPerDay \<le> MakeDate b 0 \<and>
        keyOfDate (MakeDate a 0 + int j * msPerDay) = k"
    unfolding e MakeDate_le using n by simp
  then show "\<exists>j::nat. MakeDate a 0 + int j * msPerDay \<le> MakeDate b 0 \<and>
              keyOfDate (MakeDate a 0 + int j * msPerDay) = k" by blast
qed

lemma projectEntry_skipped: "skipped e \<Longrightarrow> projectEntry st e = st"
  unfolding projectEntry_def skipped_def Let_def nullish_def by simp

lemma dayMap_projectEntry:
  "\<not> skipped e \<Longrightarrow> dayMap (projectEntry st e) = walkDays e (entryEnd e) (entryStart e) (dayMap st)"
  unfolding projectEntry_def skipped_def Let_def nullish_def by (simp split: option.splits)

lemma projectEntry_bucket:
  "set (bucket (dayMap (projectEntry st e)) k) =
     set (bucket (dayMap st) k) \<union> {x. x = e \<and> \<not> skipped e \<and> k \<in> dayKeys e}"
proof (cases "skipped e")
  case True
  then show ?thesis using projectEntry_skipped[OF True] by simp
next
  case False
  have "set (bucket (dayMap (projectEntry st e)) k) =
     set (bucket (dayMap st) k) \<union>
     {x. x = e \<and> (\<exists>j::nat. MakeDate (Day (entryStart e)) 0 + int j * msPerDay
                              \<le> MakeDate (Day (entryEnd e)) 0 \<and>
                    keyOfDate (MakeDate (Day (entryStart e)) 0 + int j * msPerDay) = k)}"
    unfolding dayMap_projectEntry[OF False] walkDays_bucket
    using entry_midnight[of e] by simp
  then show ?thesis unfolding walk_keys dayKeys_def using False by simp
qed

lemma foldl_projectEntry_bucket:
  "set (bucket (dayMap (foldl projectEntry st es)) k) =
     set (bucket (dayMap st) k) \<union> {x \<in> set es. \<not> skipped x \<and> k \<in> dayKeys x}"
proof (induction es rule: rev_induct)
  case Nil
  then show ?case by simp
next
  case (snoc e es)
  show ?case unfolding foldl_append foldl_Cons foldl_Nil projectEntry_bucket snoc.IH by auto
qed

lemma entriesByDate_bucket:
  "set (bucket (entriesByDate es) k) = {x \<in> set es. \<not> skipped x \<and> k \<in> dayKeys x}"
  unfolding entriesByDate_def projectAll_def foldl_projectEntry_bucket
  by (simp add: bucket_def)



subsection \<open>The day map\<close>

lemma civil_Day:
  "getFullYear d = YearFromDay (Day d)"
  "Day a = Day b \<Longrightarrow> getFullYear a = getFullYear b"
  "Day a = Day b \<Longrightarrow> getMonth a = getMonth b"
  "Day a = Day b \<Longrightarrow> getDate a = getDate b"
  unfolding getFullYear_def getMonth_def getDate_def YearFromTime_def MonthFromTime_def
    DateFromTime_def DayWithinYear_def InLeapYear_def
  by simp_all

lemma keyOfDate_Day: "Day a = Day b \<Longrightarrow> keyOfDate a = keyOfDate b"
  unfolding keyOfDate_def using civil_Day(2,3,4)[of a b] by simp

text \<open>
  Outside the years 0 to 99, which the constructor reads as 1900 to 1999, \<open>dateOnly\<close> is local
  midnight of the same calendar day.
\<close>

lemma dateOnly_Day:
  "\<not> (0 \<le> getFullYear d \<and> getFullYear d \<le> 99) \<Longrightarrow> Day (dateOnly d) = Day d"
proof -
  assume a: "\<not> (0 \<le> getFullYear d \<and> getFullYear d \<le> 99)"
  have f: "MakeFullYear (getFullYear d) = getFullYear d"
    using a unfolding MakeFullYear_def by simp
  have "Day (dateOnly d) = MakeDay (getFullYear d) (getMonth d) (getDate d + 0)"
    unfolding dateOnly_def newDate_midnight(1) f by simp
  also have "\<dots> = Day d + 0"
    unfolding getFullYear_def getMonth_def getDate_def by (rule MakeDay_civil)
  finally show ?thesis by simp
qed

text \<open>For a date in one of the years 0 to 99 it is midnight of the day 1900 years later.\<close>

lemma dateOnly_two_digit_year:
  "0 \<le> getFullYear d \<and> getFullYear d \<le> 99 \<Longrightarrow>
   Day (dateOnly d) = MakeDay (1900 + getFullYear d) (getMonth d) (getDate d)"
  unfolding dateOnly_def newDate_midnight(1) MakeFullYear_def by simp

lemma dateOnly_cong: "Day a = Day b \<Longrightarrow> dateOnly a = dateOnly b"
  unfolding dateOnly_def using civil_Day(2,3,4)[of a b] by simp

lemma day_20177: "Day d = 20177 \<Longrightarrow> Day (dateOnly d) = 20177"
proof -
  assume d: "Day d = 20177"
  have "getFullYear d = 2025"
    unfolding civil_Day(1) d by (simp add: YearFromDay_def DayFromYear_def)
  then show ?thesis using dateOnly_Day[of d] d by simp
qed

lemma day_20180: "Day d = 20180 \<Longrightarrow> Day (dateOnly d) = 20180"
proof -
  assume d: "Day d = 20180"
  have "getFullYear d = 2025"
    unfolding civil_Day(1) d by (simp add: YearFromDay_def DayFromYear_def)
  then show ?thesis using dateOnly_Day[of d] d by simp
qed

lemma MakeDay_2025: "MakeDay 2025 2 30 = 20177" "MakeDay 2025 3 2 = 20180"
  by (simp_all add: MakeDay_def DayFromYear_def DaysInYear_def monthStart_def)

lemma keys_2025:
  "keyOfDate (MakeDate 20177 0) = ''2025-03-30''"
  "keyOfDate (MakeDate 20178 0) = ''2025-03-31''"
  "keyOfDate (MakeDate 20179 0) = ''2025-04-01''"
  "keyOfDate (MakeDate 20180 0) = ''2025-04-02''"
  by code_simp+

lemma interval_2025: "{20177..20180::int} = {20177, 20178, 20179, 20180}"
  by auto


text \<open>
  In a zone with constant offset: for every entry whose date-only start is on or before its
  date-only end, the day map lists the entry under exactly the keys of the calendar days from
  the day of the date-only start to the day of the date-only end inclusive, and under no other
  key. Both ends of the walk are midnights. An entry with no end date is listed under the key of
  its date-only start. An entry that starts on 2025-03-30 and ends on 2025-04-02, at any times
  of day, is listed under exactly the four keys 2025-03-30, 2025-03-31, 2025-04-01 and
  2025-04-02. Date-only is the sources' \<open>new Date(d.getFullYear(), d.getMonth(), d.getDate())\<close>;
  by \<open>dateOnly_Day\<close> it is midnight of the day of \<open>d\<close> whenever the year of \<open>d\<close> is not one of
  0 to 99.
\<close>

lemma day_map_keys:
  "(\<forall>e \<in> set entries. entryStart e \<le> entryEnd e \<longrightarrow>
      {k. e \<in> set (bucket (entriesByDate entries) k)} =
      (\<lambda>n. keyOfDate (MakeDate n 0)) ` {Day (entryStart e)..Day (entryEnd e)})
   \<and> (\<forall>e \<in> set entries. TimeWithinDay (entryStart e) = 0 \<and> TimeWithinDay (entryEnd e) = 0)
   \<and> (\<forall>e \<in> set entries. endDate e = None \<longrightarrow>
      {k. e \<in> set (bucket (entriesByDate entries) k)} = {keyOfDate (entryStart e)})
   \<and> (\<forall>e \<in> set entries. \<forall>ed.
        Day (startDate e) = MakeDay 2025 2 30 \<and> endDate e = Some ed \<and> Day ed = MakeDay 2025 3 2 \<longrightarrow>
      {k. e \<in> set (bucket (entriesByDate entries) k)} =
      {''2025-03-30'', ''2025-03-31'', ''2025-04-01'', ''2025-04-02''})"
proof -
  have gen: "{k. e \<in> set (bucket (entriesByDate entries) k)} =
      (\<lambda>n. keyOfDate (MakeDate n 0)) ` {Day (entryStart e)..Day (entryEnd e)}"
    if "e \<in> set entries" "entryStart e \<le> entryEnd e" for e
  proof -
    have "\<not> skipped e" using that(2) unfolding skipped_def by simp
    then have "e \<in> set (bucket (entriesByDate entries) k) \<longleftrightarrow> k \<in> dayKeys e" for k
      unfolding entriesByDate_bucket using that(1) by simp
    then show ?thesis unfolding dayKeys_def by blast
  qed
  have mid: "TimeWithinDay (entryStart e) = 0 \<and> TimeWithinDay (entryEnd e) = 0"
    for e :: "'a LinearEntry"
    unfolding entryStart_def entryEnd_def using dateOnly_midnight(1)
    by (simp split: option.splits)
  have single: "{k. e \<in> set (bucket (entriesByDate entries) k)} = {keyOfDate (entryStart e)}"
    if "e \<in> set entries" "endDate e = None" for e
  proof -
    have ee: "entryEnd e = entryStart e" using that(2) unfolding entryEnd_def by simp
    have m: "MakeDate (Day (entryStart e)) 0 = entryStart e"
      using entry_midnight(1)[of e] by (rule sym)
    have "{k. e \<in> set (bucket (entriesByDate entries) k)} =
      (\<lambda>n. keyOfDate (MakeDate n 0)) ` {Day (entryStart e)..Day (entryStart e)}"
      using gen[OF that(1)] unfolding ee by simp
    also have "\<dots> = {keyOfDate (entryStart e)}" by (simp add: m)
    finally show ?thesis .
  qed
  have ex: "{k. e \<in> set (bucket (entriesByDate entries) k)} =
      {''2025-03-30'', ''2025-03-31'', ''2025-04-01'', ''2025-04-02''}"
    if "e \<in> set entries" "Day (startDate e) = MakeDay 2025 2 30" "endDate e = Some ed"
       "Day ed = MakeDay 2025 3 2" for e ed
  proof -
    have s: "Day (entryStart e) = 20177"
      unfolding entryStart_def by (rule day_20177) (simp add: that(2) MakeDay_2025)
    have "Day (dateOnly ed) = 20180"
      by (rule day_20180) (simp add: that(4) MakeDay_2025)
    then have t: "Day (entryEnd e) = 20180"
      unfolding entryEnd_def that(3) by simp
    have "MakeDate 20177 0 \<le> MakeDate 20180 0" unfolding MakeDate_le by simp
    then have le: "entryStart e \<le> entryEnd e"
      using entry_midnight[of e] unfolding s t by simp
    show ?thesis
      unfolding gen[OF that(1) le] s t interval_2025 by (simp add: keys_2025)
  qed
  have c1: "\<forall>e \<in> set entries. entryStart e \<le> entryEnd e \<longrightarrow>
      {k. e \<in> set (bucket (entriesByDate entries) k)} =
      (\<lambda>n. keyOfDate (MakeDate n 0)) ` {Day (entryStart e)..Day (entryEnd e)}"
    using gen by blast
  have c2: "\<forall>e \<in> set entries. TimeWithinDay (entryStart e) = 0 \<and> TimeWithinDay (entryEnd e) = 0"
    using mid by blast
  have c3: "\<forall>e \<in> set entries. endDate e = None \<longrightarrow>
      {k. e \<in> set (bucket (entriesByDate entries) k)} = {keyOfDate (entryStart e)}"
    using single by blast
  have c4: "\<forall>e \<in> set entries. \<forall>ed.
        Day (startDate e) = MakeDay 2025 2 30 \<and> endDate e = Some ed \<and> Day ed = MakeDay 2025 3 2 \<longrightarrow>
      {k. e \<in> set (bucket (entriesByDate entries) k)} =
      {''2025-03-30'', ''2025-03-31'', ''2025-04-01'', ''2025-04-02''}"
    using ex by blast
  show ?thesis by (rule conjI[OF c1 conjI[OF c2 conjI[OF c3 c4]]])
qed

subsection \<open>The walk in a zone with a daylight-saving transition\<close>

text \<open>
  A \<open>Date\<close> holds a UTC time value. A time zone gives the offset of local time from UTC, in
  milliseconds, at a UTC time value (\<open>LocalTime(t) = t + offset\<close>) and for a local time value
  (\<open>UTC(t) = t - offset\<close>). By ECMA-262 a local time that a transition skips, or repeats, is
  read with the offset before the transition: in a zone where the clocks go from 00:00 to
  01:00, \<open>new Date(y, m, d)\<close> of that day is 01:00.
\<close>

record TimeZone =
  offsetAtUTC :: "int \<Rightarrow> int"
  offsetAtLocal :: "int \<Rightarrow> int"

definition LocalTime :: "TimeZone \<Rightarrow> int \<Rightarrow> int" where
  "LocalTime z t = t + offsetAtUTC z t"

definition UTC :: "TimeZone \<Rightarrow> int \<Rightarrow> int" where
  "UTC z t = t - offsetAtLocal z t"

text \<open>A zone with one offset, and a zone with one transition at a UTC instant.\<close>

definition fixedZone :: "int \<Rightarrow> TimeZone" where
  "fixedZone off = \<lparr>offsetAtUTC = (\<lambda>t. off), offsetAtLocal = (\<lambda>t. off)\<rparr>"

definition oneTransition :: "int \<Rightarrow> int \<Rightarrow> int \<Rightarrow> TimeZone" where
  "oneTransition instant old new =
     \<lparr>offsetAtUTC = (\<lambda>t. if t < instant then old else new),
      offsetAtLocal = (\<lambda>t. if t < instant + max old new then old else new)\<rparr>"

definition getFullYear_tz :: "TimeZone \<Rightarrow> Date \<Rightarrow> int" where
  "getFullYear_tz z d = YearFromTime (LocalTime z d)"

definition getMonth_tz :: "TimeZone \<Rightarrow> Date \<Rightarrow> int" where
  "getMonth_tz z d = MonthFromTime (LocalTime z d)"

definition getDate_tz :: "TimeZone \<Rightarrow> Date \<Rightarrow> int" where
  "getDate_tz z d = DateFromTime (LocalTime z d)"

definition newDate_tz :: "TimeZone \<Rightarrow> int \<Rightarrow> int \<Rightarrow> int \<Rightarrow> Date" where
  "newDate_tz z year month day = UTC z (MakeDate (MakeDay (MakeFullYear year) month day) 0)"

definition setDate_tz :: "TimeZone \<Rightarrow> Date \<Rightarrow> int \<Rightarrow> Date" where
  "setDate_tz z d n =
     (let t = LocalTime z d
      in UTC z (MakeDate (MakeDay (YearFromTime t) (MonthFromTime t) n) (TimeWithinDay t)))"

definition dateOnly_tz :: "TimeZone \<Rightarrow> Date \<Rightarrow> Date" where
  "dateOnly_tz z d = newDate_tz z (getFullYear_tz z d) (getMonth_tz z d) (getDate_tz z d)"

definition keyOfDate_tz :: "TimeZone \<Rightarrow> Date \<Rightarrow> string" where
  "keyOfDate_tz z iter = dateKey (getFullYear_tz z iter) (getMonth_tz z iter) (getDate_tz z iter)"

text \<open>
  The \<open>while (iter <= end)\<close> loop again. With arbitrary offsets one step need not move
  \<open>iter\<close> forward, so the loop is a partial function: \<open>None\<close> when it does not end.
\<close>

partial_function (option) walkDays_tz ::
  "TimeZone \<Rightarrow> 'e LinearEntry \<Rightarrow> Date \<Rightarrow> Date \<Rightarrow> 'e DayMap \<Rightarrow> 'e DayMap option" where
  "walkDays_tz z e endD iter m =
     (if iter \<le> endD
      then walkDays_tz z e endD (setDate_tz z iter (getDate_tz z iter + 1))
             (pushEntry m (keyOfDate_tz z iter) e)
      else Some m)"

declare walkDays_tz.simps [code]

definition projectEntry_tz ::
  "TimeZone \<Rightarrow> 'e projection \<Rightarrow> 'e LinearEntry \<Rightarrow> 'e projection option" where
  "projectEntry_tz z st e =
     (let start = dateOnly_tz z (startDate e);
          endD = (case endDate e of Some ed \<Rightarrow> dateOnly_tz z ed | None \<Rightarrow> start)
      in if endD < start then Some st
         else
           case walkDays_tz z e endD start (dayMap st) of
             None \<Rightarrow> None
           | Some m \<Rightarrow>
               let y = getFullYear_tz z (startDate e);
                   minYear1 = (case minYear st of None \<Rightarrow> y | Some v \<Rightarrow> min v y);
                   maxYear1 = (case maxYear st of None \<Rightarrow> y | Some v \<Rightarrow> max v y)
               in case endDate e of
                    None \<Rightarrow> Some \<lparr>dayMap = m, minYear = Some minYear1, maxYear = Some maxYear1\<rparr>
                  | Some ed \<Rightarrow>
                      Some \<lparr>dayMap = m,
                        minYear = Some (min (nullish (Some minYear1) (getFullYear_tz z ed))
                                          (getFullYear_tz z ed)),
                        maxYear = Some (max (nullish (Some maxYear1) (getFullYear_tz z ed))
                                          (getFullYear_tz z ed))\<rparr>)"

fun projectLoop_tz ::
  "TimeZone \<Rightarrow> 'e projection \<Rightarrow> 'e LinearEntry list \<Rightarrow> 'e projection option" where
  "projectLoop_tz z st [] = Some st"
| "projectLoop_tz z st (e # es) =
     (case projectEntry_tz z st e of None \<Rightarrow> None | Some st1 \<Rightarrow> projectLoop_tz z st1 es)"

definition entriesByDate_tz :: "TimeZone \<Rightarrow> 'e LinearEntry list \<Rightarrow> 'e DayMap option" where
  "entriesByDate_tz z entries =
     map_option dayMap
       (projectLoop_tz z \<lparr>dayMap = Map.empty, minYear = None, maxYear = None\<rparr> entries)"

text \<open>
  A zone that is at UTC+2 until 2025-03-29T22:00Z and at UTC+3 from then on: the clocks go
  from 00:00 to 01:00 on 2025-03-30, as in Asia/Beirut. And an entry that starts at 10:00 on
  2025-03-30 and ends at 00:00 on 2025-04-02, local time of that zone.
\<close>

definition midnightSkipZone :: TimeZone where
  "midnightSkipZone = oneTransition (MakeDate (MakeDay 2025 2 29) 79200000) 7200000 10800000"

definition springEntry :: "nat LinearEntry" where
  "springEntry =
     \<lparr>entry = 1,
      startDate = UTC midnightSkipZone (MakeDate (MakeDay 2025 2 30) 36000000),
      endDate = Some (UTC midnightSkipZone (MakeDate (MakeDay 2025 3 2) 0))\<rparr>"

text \<open>An entry on 0050-03-05 with no end date, in a zone with constant offset.\<close>

definition earlyEntry :: "nat LinearEntry" where
  "earlyEntry = \<lparr>entry = 1, startDate = MakeDate (MakeDay 50 2 5) 0, endDate = None\<rparr>"

text \<open>In a zone with constant offset the methods and the walk are those of the sections above.\<close>

lemma fixedZone_time: "LocalTime (fixedZone off) t = t + off" "UTC (fixedZone off) t = t - off"
  unfolding LocalTime_def UTC_def fixedZone_def by simp_all

lemma fixedZone_methods:
  "getFullYear_tz (fixedZone off) d = getFullYear (d + off)"
  "getMonth_tz (fixedZone off) d = getMonth (d + off)"
  "getDate_tz (fixedZone off) d = getDate (d + off)"
  "keyOfDate_tz (fixedZone off) d = keyOfDate (d + off)"
  "newDate_tz (fixedZone off) y m n = newDate y m n - off"
  "setDate_tz (fixedZone off) d n = setDate (d + off) n - off"
  "dateOnly_tz (fixedZone off) d = dateOnly (d + off) - off"
  unfolding getFullYear_tz_def getMonth_tz_def getDate_tz_def keyOfDate_tz_def newDate_tz_def
    setDate_tz_def dateOnly_tz_def fixedZone_time getFullYear_def getMonth_def getDate_def
    keyOfDate_def newDate_def setDate_def dateOnly_def Let_def
  by simp_all

lemma walkDays_fixedZone:
  "walkDays_tz (fixedZone off) e (endD - off) (iter - off) m = Some (walkDays e endD iter m)"
proof (induction e endD iter m rule: walkDays.induct)
  case (1 e endD iter m)
  show ?case
  proof (cases "iter \<le> endD")
    case True
    have s: "setDate_tz (fixedZone off) (iter - off) (getDate_tz (fixedZone off) (iter - off) + 1)
             = setDate iter (getDate iter + 1) - off"
      unfolding fixedZone_methods by simp
    have k: "keyOfDate_tz (fixedZone off) (iter - off) = keyOfDate iter"
      unfolding fixedZone_methods by simp
    show ?thesis
      using True "1.IH"[OF True] walkDays.simps[of e endD iter m]
        walkDays_tz.simps[of "fixedZone off" e "endD - off" "iter - off" m]
      unfolding s k by simp
  next
    case False
    then show ?thesis
      using walkDays.simps[of e endD iter m]
        walkDays_tz.simps[of "fixedZone off" e "endD - off" "iter - off" m] by simp
  qed
qed

text \<open>
  C1, at two inputs on which the day map is not the one the claim describes. In the zone
  where the clocks go from 00:00 to 01:00 on 2025-03-30, the entry that starts on 2025-03-30
  and ends on 2025-04-02 is listed under 2025-03-30, 2025-03-31 and 2025-04-01 and not under
  2025-04-02: the date-only start is 01:00 of 2025-03-30, \<open>setDate\<close> keeps that time of day,
  and 01:00 of 2025-04-02 is after the date-only end, midnight of that day. And in a zone with
  constant offset the entry of 0050-03-05 is listed under the key 1950-03-05 and not under the
  key of its own day, 50-03-05: the constructor reads the year 50 as 1950.
\<close>

theorem C1_day_map_failing_inputs:
  "keyOfDate_tz midnightSkipZone (startDate springEntry) = ''2025-03-30''
   \<and> map_option (keyOfDate_tz midnightSkipZone) (endDate springEntry) = Some ''2025-04-02''
   \<and> LocalTime midnightSkipZone (dateOnly_tz midnightSkipZone (startDate springEntry)) =
       MakeDate (MakeDay 2025 2 30) 3600000
   \<and> map_option
        (\<lambda>m. map (bucket m) [''2025-03-30'', ''2025-03-31'', ''2025-04-01'', ''2025-04-02''])
        (entriesByDate_tz midnightSkipZone [springEntry]) =
       Some [[springEntry], [springEntry], [springEntry], []]
   \<and> keyOfDate (startDate earlyEntry) = ''50-03-05''
   \<and> map (bucket (entriesByDate [earlyEntry])) [''50-03-05'', ''1950-03-05''] =
       [[], [earlyEntry]]"
  by code_simp



section \<open>The year span and year navigation (LinearReactView)\<close>

text \<open>\<open>xs.indexOf(x)\<close>: the first index of \<open>x\<close>, or \<open>-1\<close>.\<close>

fun indexOf :: "'a list \<Rightarrow> 'a \<Rightarrow> int" where
  "indexOf [] x = - 1"
| "indexOf (y # ys) x =
     (if y = x then 0 else let r = indexOf ys x in if r = - 1 then - 1 else r + 1)"

text \<open>The initial state of \<open>currentYear\<close> (\<open>useState\<close>).\<close>

definition initialYear :: "int \<Rightarrow> int list \<Rightarrow> int" where
  "initialYear thisYear ys =
     (if thisYear \<in> set ys then thisYear
      else if length ys > 0 then ys ! 0 else thisYear)"

definition goPrevYear :: "int list \<Rightarrow> int \<Rightarrow> int" where
  "goPrevYear ys currentYear =
     (let idx = indexOf ys currentYear
      in if idx > 0 then ys ! nat (idx - 1) else currentYear)"

definition goNextYear :: "int list \<Rightarrow> int \<Rightarrow> int" where
  "goNextYear ys currentYear =
     (let idx = indexOf ys currentYear
      in if idx \<noteq> - 1 \<and> idx < int (length ys) - 1 then ys ! nat (idx + 1) else currentYear)"

text \<open>The years an entry contributes once it is projected, and those of a list of entries.\<close>

definition entryYears :: "'e LinearEntry \<Rightarrow> int list" where
  "entryYears e =
     getFullYear (startDate e) # (case endDate e of None \<Rightarrow> [] | Some ed \<Rightarrow> [getFullYear ed])"

definition projectedYears :: "'e LinearEntry list \<Rightarrow> int list" where
  "projectedYears es = concat (map entryYears (filter (\<lambda>e. \<not> skipped e) es))"

lemma indexOf_upto: "indexOf [a..b] c = (if a \<le> c \<and> c \<le> b then c - a else - 1)"
proof (induction a b rule: upto.induct)
  case (1 i j)
  show ?case
  proof (cases "i \<le> j")
    case True
    have u: "[i..j] = i # [i + 1..j]" using True by (simp add: upto_rec1)
    show ?thesis unfolding u using "1.IH"[OF True] True by (auto simp: Let_def)
  next
    case False
    then show ?thesis by simp
  qed
qed

lemma years_minmax:
  "(projectedYears es = [] \<longrightarrow>
      minYear (projectAll es) = None \<and> maxYear (projectAll es) = None) \<and>
   (projectedYears es \<noteq> [] \<longrightarrow>
      minYear (projectAll es) = Some (Min (set (projectedYears es))) \<and>
      maxYear (projectAll es) = Some (Max (set (projectedYears es))))"
proof (induction es rule: rev_induct)
  case Nil
  then show ?case by (simp add: projectedYears_def projectAll_def)
next
  case (snoc e es)
  define st where "st = projectAll es"
  define ys where "ys = projectedYears es"
  have pa: "projectAll (es @ [e]) = projectEntry st e"
    unfolding projectAll_def st_def by simp
  show ?case
  proof (cases "skipped e")
    case True
    have "projectedYears (es @ [e]) = ys"
      unfolding projectedYears_def ys_def using True by simp
    then show ?thesis
      unfolding pa projectEntry_skipped[OF True] using snoc.IH
      unfolding st_def[symmetric] ys_def[symmetric] by simp
  next
    case False
    have py: "projectedYears (es @ [e]) = ys @ entryYears e"
      unfolding projectedYears_def ys_def using False by simp
    have ne: "entryYears e \<noteq> []" unfolding entryYears_def by simp
    have IH: "(ys = [] \<longrightarrow> minYear st = None \<and> maxYear st = None) \<and>
              (ys \<noteq> [] \<longrightarrow> minYear st = Some (Min (set ys)) \<and> maxYear st = Some (Max (set ys)))"
      using snoc.IH unfolding st_def ys_def .
    have mn: "minYear (projectEntry st e) =
                Some (case minYear st of None \<Rightarrow> Min (set (entryYears e))
                      | Some v \<Rightarrow> min v (Min (set (entryYears e))))"
      using False unfolding projectEntry_def skipped_def Let_def nullish_def entryYears_def
      by (simp split: option.splits add: min.commute min.left_commute)
    have mx: "maxYear (projectEntry st e) =
                Some (case maxYear st of None \<Rightarrow> Max (set (entryYears e))
                      | Some v \<Rightarrow> max v (Max (set (entryYears e))))"
      using False unfolding projectEntry_def skipped_def Let_def nullish_def entryYears_def
      by (simp split: option.splits add: max.commute max.left_commute)
    show ?thesis
    proof (cases "ys = []")
      case True
      then show ?thesis unfolding pa py mn mx using IH ne by simp
    next
      case F: False
      have "Min (set ys \<union> set (entryYears e)) = min (Min (set ys)) (Min (set (entryYears e)))"
        by (rule Min_Un) (use F ne in simp_all)
      moreover have "Max (set ys \<union> set (entryYears e)) = max (Max (set ys)) (Max (set (entryYears e)))"
        by (rule Max_Un) (use F ne in simp_all)
      ultimately show ?thesis unfolding pa py mn mx using IH F by simp
    qed
  qed
qed

lemma years_eq:
  "years thisYear es =
     (if projectedYears es = [] then [thisYear]
      else [Min (set (projectedYears es))..Max (set (projectedYears es))])"
  unfolding years_def Let_def nullish_def using years_minmax[of es] by auto

lemma years_upto:
  "\<exists>a b. a \<le> b \<and> years thisYear es = [a..b]"
proof (cases "projectedYears es = []")
  case True
  then have "thisYear \<le> thisYear \<and> years thisYear es = [thisYear..thisYear]"
    unfolding years_eq by simp
  then show ?thesis by blast
next
  case False
  have "Min (set (projectedYears es)) \<le> Max (set (projectedYears es))"
    by (rule Min_le) (use False in simp_all)
  then have "Min (set (projectedYears es)) \<le> Max (set (projectedYears es)) \<and>
     years thisYear es = [Min (set (projectedYears es))..Max (set (projectedYears es))]"
    unfolding years_eq using False by simp
  then show ?thesis by blast
qed

lemma nav_upto:
  assumes "a \<le> b" "a \<le> c" "c \<le> b"
  shows "goPrevYear [a..b] c = max a (c - 1)" "goNextYear [a..b] c = min b (c + 1)"
proof -
  have l: "int (length [a..b]) = b - a + 1" using assms(1) by simp
  show "goPrevYear [a..b] c = max a (c - 1)"
  proof (cases "a < c")
    case True
    have "[a..b] ! nat (c - a - 1) = a + int (nat (c - a - 1))"
      by (rule nth_upto) (use True assms in simp)
    then show ?thesis unfolding goPrevYear_def Let_def indexOf_upto using True assms by simp
  next
    case False
    then show ?thesis unfolding goPrevYear_def Let_def indexOf_upto using assms by simp
  qed
  show "goNextYear [a..b] c = min b (c + 1)"
  proof (cases "c < b")
    case True
    have "[a..b] ! nat (c - a + 1) = a + int (nat (c - a + 1))"
      by (rule nth_upto) (use True assms in simp)
    then show ?thesis unfolding goNextYear_def Let_def indexOf_upto l using True assms by simp
  next
    case False
    then show ?thesis unfolding goNextYear_def Let_def indexOf_upto l using assms by simp
  qed
qed

lemma nav_outside:
  "c \<notin> set [a..b] \<Longrightarrow> goPrevYear [a..b] c = c \<and> goNextYear [a..b] c = c"
  unfolding goPrevYear_def goNextYear_def Let_def indexOf_upto by auto

lemma initialYear_upto: "a \<le> b \<Longrightarrow> initialYear t [a..b] \<in> set [a..b]"
  unfolding initialYear_def by (auto simp: upto_rec1)


lemma dateOnly_Day_eq:
  "Day d = n \<Longrightarrow> \<not> (0 \<le> YearFromDay n \<and> YearFromDay n \<le> 99) \<Longrightarrow> Day (dateOnly d) = n"
  using dateOnly_Day[of d] unfolding civil_Day(1) by simp

lemma MakeDay_2023: "MakeDay 2023 11 30 = 19721" "MakeDay 2024 0 2 = 19724"
  by (simp_all add: MakeDay_def DayFromYear_def DaysInYear_def monthStart_def)

lemma YearFromDay_2023: "YearFromDay 19721 = 2023" "YearFromDay 19724 = 2024"
  by (simp_all add: YearFromDay_def DayFromYear_def)

lemma set_projectedYears:
  "set (projectedYears es) = (\<Union>x \<in> {x \<in> set es. \<not> skipped x}. set (entryYears x))"
  unfolding projectedYears_def by auto

lemma start_only_not_skipped: "endDate x = None \<Longrightarrow> \<not> skipped x"
  unfolding skipped_def entryEnd_def by simp

lemma span_2023_2024:
  assumes "Day (startDate x) = MakeDay 2023 11 30" "endDate x = Some ed" "Day ed = MakeDay 2024 0 2"
  shows "\<not> skipped x" "set (entryYears x) = {2023, 2024}"
proof -
  have s: "Day (entryStart x) = 19721"
    unfolding entryStart_def
    by (rule dateOnly_Day_eq) (simp_all add: assms(1) MakeDay_2023 YearFromDay_2023)
  have "Day (dateOnly ed) = 19724"
    by (rule dateOnly_Day_eq) (simp_all add: assms(3) MakeDay_2023 YearFromDay_2023)
  then have t: "Day (entryEnd x) = 19724" unfolding entryEnd_def assms(2) by simp
  have "MakeDate 19721 0 \<le> MakeDate 19724 0" unfolding MakeDate_le by simp
  then have "entryStart x \<le> entryEnd x" using entry_midnight[of x] unfolding s t by simp
  then show "\<not> skipped x" unfolding skipped_def by simp
  have "getFullYear (startDate x) = 2023" "getFullYear ed = 2024"
    unfolding civil_Day(1) assms(1,3) MakeDay_2023 YearFromDay_2023 by simp_all
  then show "set (entryYears x) = {2023, 2024}" unfolding entryYears_def assms(2) by simp
qed

text \<open>
  C9. The year list is the inclusive range from the least to the greatest year among the
  start-date years and, where there is an end date, the end-date years of the entries that are
  projected (not skipped); with no such entry it is the current year alone. Entries with only a
  start date in 2024 together with an entry from 2023-12-30 to 2024-01-02 give 2023, 2024. The
  initial year lies in the list; from a year of the list, the previous-year and next-year
  handlers move by one year and stop at the least and the greatest year of the list; from a year
  outside the list they do nothing.
\<close>

theorem C9_year_span:
  "(projectedYears entries \<noteq> [] \<longrightarrow>
      years thisYear entries =
        [Min (set (projectedYears entries))..Max (set (projectedYears entries))])
   \<and> (projectedYears entries = [] \<longrightarrow> years thisYear entries = [thisYear])
   \<and> ((\<forall>x \<in> set entries.
          (endDate x = None \<and> getFullYear (startDate x) = 2024) \<or>
          (Day (startDate x) = MakeDay 2023 11 30 \<and>
           (\<exists>ed. endDate x = Some ed \<and> Day ed = MakeDay 2024 0 2))) \<and>
        (\<exists>x \<in> set entries. endDate x \<noteq> None)
       \<longrightarrow> years thisYear entries = [2023, 2024])
   \<and> initialYear thisYear (years thisYear entries) \<in> set (years thisYear entries)
   \<and> (\<forall>c \<in> set (years thisYear entries).
        goPrevYear (years thisYear entries) c = max (Min (set (years thisYear entries))) (c - 1) \<and>
        goNextYear (years thisYear entries) c = min (Max (set (years thisYear entries))) (c + 1))
   \<and> (\<forall>c. c \<notin> set (years thisYear entries) \<longrightarrow>
        goPrevYear (years thisYear entries) c = c \<and> goNextYear (years thisYear entries) c = c)"
proof -
  obtain a b where ab: "a \<le> b" "years thisYear entries = [a..b]"
    using years_upto[of thisYear entries] by blast
  have c1: "projectedYears entries \<noteq> [] \<longrightarrow>
      years thisYear entries =
        [Min (set (projectedYears entries))..Max (set (projectedYears entries))]"
    unfolding years_eq by simp
  have c2: "projectedYears entries = [] \<longrightarrow> years thisYear entries = [thisYear]"
    unfolding years_eq by simp
  have c3: "(\<forall>x \<in> set entries.
          (endDate x = None \<and> getFullYear (startDate x) = 2024) \<or>
          (Day (startDate x) = MakeDay 2023 11 30 \<and>
           (\<exists>ed. endDate x = Some ed \<and> Day ed = MakeDay 2024 0 2))) \<and>
        (\<exists>x \<in> set entries. endDate x \<noteq> None)
       \<longrightarrow> years thisYear entries = [2023, 2024]"
  proof
    assume h: "(\<forall>x \<in> set entries.
          (endDate x = None \<and> getFullYear (startDate x) = 2024) \<or>
          (Day (startDate x) = MakeDay 2023 11 30 \<and>
           (\<exists>ed. endDate x = Some ed \<and> Day ed = MakeDay 2024 0 2))) \<and>
        (\<exists>x \<in> set entries. endDate x \<noteq> None)"
    have A: "\<not> skipped x \<and> set (entryYears x) \<subseteq> {2023, 2024}" if "x \<in> set entries" for x
    proof -
      have "(endDate x = None \<and> getFullYear (startDate x) = 2024) \<or>
          (Day (startDate x) = MakeDay 2023 11 30 \<and>
           (\<exists>ed. endDate x = Some ed \<and> Day ed = MakeDay 2024 0 2))"
        using bspec[OF conjunct1[OF h] that] .
      then consider
        (only) "endDate x = None" "getFullYear (startDate x) = 2024"
        | (span) ed where "Day (startDate x) = MakeDay 2023 11 30" "endDate x = Some ed"
            "Day ed = MakeDay 2024 0 2"
        by auto
      then show ?thesis
      proof cases
        case only
        then show ?thesis using start_only_not_skipped[of x] unfolding entryYears_def by simp
      next
        case span
        then show ?thesis using span_2023_2024[of x ed] by simp
      qed
    qed
    obtain x where x0: "x \<in> set entries" "endDate x \<noteq> None"
      using conjunct2[OF h] by auto
    have "(endDate x = None \<and> getFullYear (startDate x) = 2024) \<or>
          (Day (startDate x) = MakeDay 2023 11 30 \<and>
           (\<exists>ed. endDate x = Some ed \<and> Day ed = MakeDay 2024 0 2))"
      using bspec[OF conjunct1[OF h] x0(1)] .
    then obtain ed where x: "x \<in> set entries" "Day (startDate x) = MakeDay 2023 11 30"
      "endDate x = Some ed" "Day ed = MakeDay 2024 0 2" using x0 by auto
    have B: "\<not> skipped x" "set (entryYears x) = {2023, 2024}"
      using span_2023_2024[OF x(2,3,4)] by simp_all
    have sub: "set (projectedYears entries) \<subseteq> {2023, 2024}"
      unfolding set_projectedYears using A by blast
    have sup: "{2023, 2024} \<subseteq> set (projectedYears entries)"
      unfolding set_projectedYears using x(1) B by blast
    have e: "set (projectedYears entries) = {2023, 2024}" using sub sup by (rule subset_antisym)
    then have ne: "projectedYears entries \<noteq> []" by auto
    have "[2023..2024::int] = [2023, 2024]" by (simp add: upto_rec1)
    then show "years thisYear entries = [2023, 2024]"
      unfolding years_eq e using ne by simp
  qed
  have c4: "initialYear thisYear (years thisYear entries) \<in> set (years thisYear entries)"
    unfolding ab(2) by (rule initialYear_upto[OF ab(1)])
  have mm: "Min (set [a..b]) = a" "Max (set [a..b]) = b"
  proof -
    show "Min (set [a..b]) = a" by (rule Min_eqI) (use ab(1) in auto)
    show "Max (set [a..b]) = b" by (rule Max_eqI) (use ab(1) in auto)
  qed
  have c5: "\<forall>c \<in> set (years thisYear entries).
        goPrevYear (years thisYear entries) c = max (Min (set (years thisYear entries))) (c - 1) \<and>
        goNextYear (years thisYear entries) c = min (Max (set (years thisYear entries))) (c + 1)"
    unfolding ab(2) mm using nav_upto[OF ab(1)] by simp
  have c6: "\<forall>c. c \<notin> set (years thisYear entries) \<longrightarrow>
        goPrevYear (years thisYear entries) c = c \<and> goNextYear (years thisYear entries) c = c"
    unfolding ab(2) using nav_outside by blast
  show ?thesis by (rule conjI[OF c1 conjI[OF c2 conjI[OF c3 conjI[OF c4 conjI[OF c5 c6]]]]])
qed


theorem C9_year_span_witness:
  "years 2026
     [\<lparr>entry = (0::nat), startDate = MakeDate 19800 0, endDate = None\<rparr>,
      \<lparr>entry = 1, startDate = MakeDate 19721 5000, endDate = Some (MakeDate 19724 0)\<rparr>] = [2023, 2024]
   \<and> goPrevYear (years 2026
     [\<lparr>entry = (0::nat), startDate = MakeDate 19800 0, endDate = None\<rparr>,
      \<lparr>entry = 1, startDate = MakeDate 19721 5000, endDate = Some (MakeDate 19724 0)\<rparr>]) 2024 = 2023
   \<and> goNextYear (years 2026
     [\<lparr>entry = (0::nat), startDate = MakeDate 19800 0, endDate = None\<rparr>,
      \<lparr>entry = 1, startDate = MakeDate 19721 5000, endDate = Some (MakeDate 19724 0)\<rparr>]) 2024 = 2024"
proof -
  let ?e0 = "\<lparr>entry = (0::nat), startDate = MakeDate 19800 0, endDate = None\<rparr>"
  let ?e1 = "\<lparr>entry = (1::nat), startDate = MakeDate 19721 5000, endDate = Some (MakeDate 19724 0)\<rparr>"
  let ?es = "[?e0, ?e1]"
  have d0: "Day (MakeDate 19800 0) = 19800"
    by (rule Day_MakeDate) (simp_all add: msPerDay_def)
  have d1: "Day (MakeDate 19721 5000) = 19721"
    by (rule Day_MakeDate) (simp_all add: msPerDay_def)
  have d2: "Day (MakeDate 19724 0) = 19724"
    by (rule Day_MakeDate) (simp_all add: msPerDay_def)
  have y0: "getFullYear (MakeDate 19800 0) = 2024"
    unfolding civil_Day(1) d0 by (simp add: YearFromDay_def DayFromYear_def)
  have h: "(\<forall>x \<in> set ?es.
          (endDate x = None \<and> getFullYear (startDate x) = 2024) \<or>
          (Day (startDate x) = MakeDay 2023 11 30 \<and>
           (\<exists>ed. endDate x = Some ed \<and> Day ed = MakeDay 2024 0 2))) \<and>
        (\<exists>x \<in> set ?es. endDate x \<noteq> None)"
    using y0 d1 d2 by (simp add: MakeDay_2023)
  note c = C9_year_span[of ?es 2026]
  have ys: "years 2026 ?es = [2023, 2024]"
    using conjunct1[OF conjunct2[OF conjunct2[OF c]]] h by (rule mp)
  have nav: "\<forall>c \<in> set (years 2026 ?es).
        goPrevYear (years 2026 ?es) c = max (Min (set (years 2026 ?es))) (c - 1) \<and>
        goNextYear (years 2026 ?es) c = min (Max (set (years 2026 ?es))) (c + 1)"
    using conjunct1[OF conjunct2[OF conjunct2[OF conjunct2[OF conjunct2[OF c]]]]] .
  have "goPrevYear (years 2026 ?es) 2024 = max (Min (set (years 2026 ?es))) (2024 - 1) \<and>
        goNextYear (years 2026 ?es) 2024 = min (Max (set (years 2026 ?es))) (2024 + 1)"
    using nav unfolding ys by simp
  then have "goPrevYear (years 2026 ?es) 2024 = 2023 \<and> goNextYear (years 2026 ?es) 2024 = 2024"
    unfolding ys by simp
  then show ?thesis using ys by simp
qed




section \<open>The month grid (CalendarReactView and CalendarView)\<close>

text \<open>
  \<open>CalendarEntry\<close> has the fields of \<open>LinearEntry\<close>. Of the event object handed to the
  calendar widget the model keeps \<open>start\<close>, \<open>end\<close> and the two extended properties; \<open>id\<close>
  and \<open>title\<close> are read off the entry's file and \<open>allDay\<close> is constantly true.
\<close>

type_synonym 'e CalendarEntry = "'e LinearEntry"

record 'e CalendarEvent =
  ev_entry :: 'e
  ev_start :: Date
  ev_end :: "Date option"
  originalEndDate :: "Date option"

text \<open>The body of \<open>entries.map((calEntry) => ...)\<close>.\<close>

definition toEvent :: "'e CalendarEntry \<Rightarrow> 'e CalendarEvent" where
  "toEvent calEntry =
     (let adjustedEndDate =
            (case endDate calEntry of
               None \<Rightarrow> None
             | Some ed \<Rightarrow>
                 let startDateOnly = newDate (getFullYear (startDate calEntry))
                                       (getMonth (startDate calEntry)) (getDate (startDate calEntry));
                     endDateOnly = newDate (getFullYear ed) (getMonth ed) (getDate ed)
                 in if getTime startDateOnly = getTime endDateOnly then None
                    else Some (setDate ed (getDate ed + 1)))
      in \<lparr>ev_entry = entry calEntry, ev_start = startDate calEntry, ev_end = adjustedEndDate,
          originalEndDate = endDate calEntry\<rparr>)"

text \<open>
  What \<open>handleEventDrop\<close> reads from its argument: the dropped event's extended properties
  and the start and end the widget reports (either may be \<open>null\<close>).
\<close>

record 'e EventDropArg =
  drop_entry :: 'e
  drop_originalEndDate :: "Date option"
  drop_start :: "Date option"
  drop_end :: "Date option"

datatype 'r DropOutcome = Reverted | Handled 'r

text \<open>
  \<open>handleEventDrop\<close>. The callback's result stands for the awaited promise; a rejected
  promise (the host failing to write), which the source answers with \<open>revert\<close>, is outside the
  model.
\<close>

definition handleEventDrop ::
  "('e \<Rightarrow> Date \<Rightarrow> Date option \<Rightarrow> 'r) option \<Rightarrow> 'e EventDropArg \<Rightarrow> 'r DropOutcome" where
  "handleEventDrop onEventDrop dropInfo =
     (case onEventDrop of
        None \<Rightarrow> Reverted
      | Some callback \<Rightarrow>
          (case drop_start dropInfo of
             None \<Rightarrow> Reverted
           | Some newStart \<Rightarrow>
               let actualEndDate =
                     (case drop_originalEndDate dropInfo of
                        None \<Rightarrow> None
                      | Some orig \<Rightarrow>
                          (case drop_end dropInfo of
                             Some newEnd \<Rightarrow> Some (setDate newEnd (getDate newEnd - 1))
                           | None \<Rightarrow> Some newStart))
               in Handled (callback (drop_entry dropInfo) newStart actualEndDate)))"

subsection \<open>Writing the dates back (\<open>CalendarView.updateEntryDates\<close>)\<close>

record CalendarConfig =
  startDateProp :: "string option"
  endDateProp :: "string option"

type_synonym frontmatter = "string \<rightharpoonup> string"

text \<open>JavaScript truthiness of a string or \<open>null\<close>; \<open>s.startsWith(p)\<close>.\<close>

definition truthy :: "string option \<Rightarrow> bool" where
  "truthy p = (case p of None \<Rightarrow> False | Some s \<Rightarrow> s \<noteq> [])"

definition startsWith :: "string \<Rightarrow> string \<Rightarrow> bool" where
  "startsWith s p = (take (length p) s = p)"

definition formatDate :: "Date \<Rightarrow> string" where
  "formatDate date =
     (let year = getFullYear date;
          month = padStart 2 (CHR ''0'') (toString (getMonth date + 1));
          day = padStart 2 (CHR ''0'') (toString (getDate date))
      in toString year @ ''-'' @ month @ ''-'' @ day)"

text \<open>
  \<open>updateEntryDates\<close>, as the function from the front matter of the entry's file to the front
  matter that \<open>processFrontMatter\<close> commits.
\<close>

definition updateEntryDates ::
  "CalendarConfig \<Rightarrow> Date \<Rightarrow> Date option \<Rightarrow> frontmatter \<Rightarrow> frontmatter" where
  "updateEntryDates cfg newStart newEnd fm =
     (if \<not> truthy (startDateProp cfg) then fm
      else case startDateProp cfg of
        None \<Rightarrow> fm
      | Some startPropName \<Rightarrow>
          let endPropName = endDateProp cfg;
              extractedStartProp =
                (if startsWith startPropName ''note.'' then Some (drop 5 startPropName) else None);
              extractedEndProp =
                (case endPropName of
                   None \<Rightarrow> None
                 | Some ep \<Rightarrow> if startsWith ep ''note.'' then Some (drop 5 ep) else None);
              shouldUpdate =
                (extractedStartProp \<noteq> None \<and>
                 (\<not> truthy (endDateProp cfg) \<or> extractedEndProp \<noteq> None))
          in if \<not> shouldUpdate then fm
             else case extractedStartProp of
               None \<Rightarrow> fm
             | Some sp \<Rightarrow>
                 let fm1 = fm(sp \<mapsto> formatDate newStart)
                 in (case newEnd of
                       None \<Rightarrow> fm1
                     | Some ne \<Rightarrow>
                         (case extractedEndProp of
                            None \<Rightarrow> fm1
                          | Some ep \<Rightarrow>
                              if truthy (endDateProp cfg) \<and> truthy (Some ep)
                              then fm1(ep \<mapsto> formatDate ne) else fm1)))"

text \<open>The \<open>onEventDrop\<close> property that \<open>CalendarView\<close> passes to the component.\<close>

definition onEventDrop ::
  "CalendarConfig \<Rightarrow> 'e \<Rightarrow> Date \<Rightarrow> Date option \<Rightarrow> frontmatter \<Rightarrow> frontmatter" where
  "onEventDrop cfg e newStart newEnd = updateEntryDates cfg newStart newEnd"

subsection \<open>Events handed to the widget\<close>

lemma toEvent_end:
  "ev_end (toEvent e) =
     (case endDate e of None \<Rightarrow> None
      | Some ed \<Rightarrow> if dateOnly (startDate e) = dateOnly ed then None else Some (ed + msPerDay))"
  unfolding toEvent_def Let_def dateOnly_def getTime_def
  using setDate_shift[of _ 1] by (simp split: option.splits)

lemma shift_day: "Day (d + k * msPerDay) = Day d + k"
  unfolding Day_def msPerDay_def by simp

lemma shift_time: "TimeWithinDay (d + k * msPerDay) = TimeWithinDay d"
  unfolding TimeWithinDay_def msPerDay_def by simp

text \<open>
  What the mapping does, in terms of the two date-only values it compares. An entry with no
  end date gives an event with no end. An entry whose two date-only values are equal, which is
  the case whenever start and end fall on the same calendar day, gives an event with no end. An
  entry whose date-only end is later than its date-only start gives an event whose end is the
  entry's end plus one calendar day, at the same time of day. The start is passed unchanged and
  the original end is kept in the extended properties.
\<close>

lemma toEvent_exclusive_end:
  "(endDate e = None \<longrightarrow> ev_end (toEvent e) = None)
   \<and> (\<forall>ed. endDate e = Some ed \<and> dateOnly (startDate e) = dateOnly ed \<longrightarrow>
         ev_end (toEvent e) = None)
   \<and> (\<forall>ed. endDate e = Some ed \<and> Day (startDate e) = Day ed \<longrightarrow> ev_end (toEvent e) = None)
   \<and> (\<forall>ed. endDate e = Some ed \<and> dateOnly (startDate e) < dateOnly ed \<longrightarrow>
         ev_end (toEvent e) = Some (ed + msPerDay) \<and>
         Day (ed + msPerDay) = Day ed + 1 \<and>
         TimeWithinDay (ed + msPerDay) = TimeWithinDay ed)
   \<and> ev_start (toEvent e) = startDate e
   \<and> originalEndDate (toEvent e) = endDate e"
proof -
  have c1: "endDate e = None \<longrightarrow> ev_end (toEvent e) = None"
    unfolding toEvent_end by simp
  have c2: "\<forall>ed. endDate e = Some ed \<and> dateOnly (startDate e) = dateOnly ed \<longrightarrow>
         ev_end (toEvent e) = None"
    unfolding toEvent_end by simp
  have c3: "\<forall>ed. endDate e = Some ed \<and> Day (startDate e) = Day ed \<longrightarrow> ev_end (toEvent e) = None"
    unfolding toEvent_end using dateOnly_cong[of "startDate e"] by auto
  have c4: "\<forall>ed. endDate e = Some ed \<and> dateOnly (startDate e) < dateOnly ed \<longrightarrow>
         ev_end (toEvent e) = Some (ed + msPerDay) \<and>
         Day (ed + msPerDay) = Day ed + 1 \<and>
         TimeWithinDay (ed + msPerDay) = TimeWithinDay ed"
    unfolding toEvent_end using shift_day[of _ 1] shift_time[of _ 1] by auto
  have c5: "ev_start (toEvent e) = startDate e" unfolding toEvent_def Let_def by simp
  have c6: "originalEndDate (toEvent e) = endDate e" unfolding toEvent_def Let_def by simp
  show ?thesis by (rule conjI[OF c1 conjI[OF c2 conjI[OF c3 conjI[OF c4 conjI[OF c5 c6]]]]])
qed

text \<open>
  When neither date is in one of the years 0 to 99, the date-only values are equal exactly when
  the two dates fall on the same calendar day: the event has no end then, and the entry's end
  plus one day otherwise.
\<close>

lemma toEvent_ordinary_years:
  assumes "endDate e = Some ed"
    and "\<not> (0 \<le> getFullYear (startDate e) \<and> getFullYear (startDate e) \<le> 99)"
    and "\<not> (0 \<le> getFullYear ed \<and> getFullYear ed \<le> 99)"
  shows "ev_end (toEvent e) = (if Day (startDate e) = Day ed then None else Some (ed + msPerDay))"
proof -
  have "(dateOnly (startDate e) = dateOnly ed) = (Day (startDate e) = Day ed)"
  proof
    assume "dateOnly (startDate e) = dateOnly ed"
    then have "Day (dateOnly (startDate e)) = Day (dateOnly ed)" by simp
    then show "Day (startDate e) = Day ed"
      unfolding dateOnly_Day[OF assms(2)] dateOnly_Day[OF assms(3)] .
  next
    assume "Day (startDate e) = Day ed"
    then show "dateOnly (startDate e) = dateOnly ed" by (rule dateOnly_cong)
  qed
  then show ?thesis unfolding toEvent_end assms(1) by simp
qed

text \<open>
  Two entries in the years that the \<open>Date\<close> constructor reads as 1900 to 1999: one that starts
  on 0000-02-29 and ends on 0000-03-01, the next day, and one that starts on 0050-03-05 and ends
  on 1950-03-05.
\<close>

definition leapEntry :: "nat CalendarEntry" where
  "leapEntry = \<lparr>entry = 1, startDate = MakeDate (MakeDay 0 1 29) 0,
                 endDate = Some (MakeDate (MakeDay 0 2 1) 0)\<rparr>"

definition centuriesEntry :: "nat CalendarEntry" where
  "centuriesEntry = \<lparr>entry = 2, startDate = MakeDate (MakeDay 50 2 5) 0,
                      endDate = Some (MakeDate (MakeDay 1950 2 5) 0)\<rparr>"

text \<open>
  C3, at two inputs on which the event is not the one the claim describes. The entry of
  0000-02-29 to 0000-03-01 ends on the day after its start, and the entry of 0050-03-05 to
  1950-03-05 ends 1900 years after it, yet both are handed to the widget with no end, as
  single-day events: \<open>startDateOnly\<close> and \<open>endDateOnly\<close> are built with the constructor that
  reads the years 0 and 50 as 1900 and 1950, and both pairs come out equal (1900 has no 29th
  of February, so that date is read as 1900-03-01).
\<close>

theorem C3_two_digit_year:
  "(getFullYear (startDate leapEntry), getMonth (startDate leapEntry),
      getDate (startDate leapEntry)) = (0, 1, 29)
   \<and> map_option (\<lambda>d. (getFullYear d, getMonth d, getDate d)) (endDate leapEntry) = Some (0, 2, 1)
   \<and> map_option Day (endDate leapEntry) = Some (Day (startDate leapEntry) + 1)
   \<and> ev_end (toEvent leapEntry) = None
   \<and> getFullYear (startDate centuriesEntry) = 50
   \<and> map_option getFullYear (endDate centuriesEntry) = Some 1950
   \<and> ev_end (toEvent centuriesEntry) = None"
  by code_simp


subsection \<open>The persisted string determines the calendar day\<close>

definition isDigit :: "char \<Rightarrow> bool" where
  "isDigit c = (c \<in> set ''0123456789'')"

definition digitVal :: "char \<Rightarrow> nat" where
  "digitVal c = of_char c - 48"

definition readNat :: "string \<Rightarrow> nat" where
  "readNat s = foldl (\<lambda>a c. 10 * a + digitVal c) 0 s"

text \<open>A string of the shape \<open>YYYY-MM-DD\<close>.\<close>

definition isYMD :: "string \<Rightarrow> bool" where
  "isYMD s = (length s = 10 \<and> s ! 4 = CHR ''-'' \<and> s ! 7 = CHR ''-'' \<and>
              (\<forall>i \<in> {0, 1, 2, 3, 5, 6, 8, 9}. isDigit (s ! i)))"

lemma digit_cases: "n < 10 \<Longrightarrow> n \<in> {0, 1, 2, 3, 4, 5, 6, 7, 8, 9::nat}"
  by auto

lemma digitChar_props:
  "n < 10 \<Longrightarrow> isDigit (digitChar n) \<and> digitVal (digitChar n) = n \<and> digitChar n \<noteq> CHR ''-''"
  using digit_cases[of n] unfolding isDigit_def digitVal_def digitChar_def by auto

lemma readNat_snoc: "readNat (xs @ [c]) = 10 * readNat xs + digitVal c"
  unfolding readNat_def by simp

lemma showNat_props:
  "readNat (showNat n) = n \<and> showNat n \<noteq> [] \<and> (\<forall>c \<in> set (showNat n). isDigit c)"
proof (induction n rule: showNat.induct)
  case (1 n)
  show ?case
  proof (cases "n < 10")
    case True
    then have "showNat n = [digitChar n]" using showNat.simps[of n] by simp
    then show ?thesis using digitChar_props[OF True] by (simp add: readNat_def)
  next
    case False
    have s: "showNat n = showNat (n div 10) @ [digitChar (n mod 10)]"
      using False showNat.simps[of n] by simp
    have m: "n mod 10 < 10" by simp
    show ?thesis unfolding s readNat_snoc
      using "1.IH"[OF False] digitChar_props[OF m] by simp
  qed
qed

lemma dash_not_digit: "\<not> isDigit (CHR ''-'')"
  unfolding isDigit_def by simp

lemma toString_inj: "toString a = toString b \<Longrightarrow> a = b"
proof -
  assume e: "toString a = toString b"
  have hd_digit: "hd (showNat n) \<noteq> CHR ''-''" for n
    using showNat_props[of n] dash_not_digit by (cases "showNat n") auto
  show ?thesis
  proof (cases "a < 0")
    case A: True
    show ?thesis
    proof (cases "b < 0")
      case True
      then have "showNat (nat (- a)) = showNat (nat (- b))"
        using e A unfolding toString_def by simp
      then have "nat (- a) = nat (- b)" using showNat_props by metis
      then show ?thesis using A True by simp
    next
      case False
      then have "CHR ''-'' # showNat (nat (- a)) = showNat (nat b)"
        using e A unfolding toString_def by simp
      then have "hd (showNat (nat b)) = CHR ''-''" by (metis list.sel(1))
      then show ?thesis using hd_digit by simp
    qed
  next
    case A: False
    show ?thesis
    proof (cases "b < 0")
      case True
      then have "showNat (nat a) = CHR ''-'' # showNat (nat (- b))"
        using e A unfolding toString_def by simp
      then have "hd (showNat (nat a)) = CHR ''-''" by (metis list.sel(1))
      then show ?thesis using hd_digit by simp
    next
      case False
      then have "showNat (nat a) = showNat (nat b)"
        using e A unfolding toString_def by simp
      then have "nat a = nat b" using showNat_props by metis
      then show ?thesis using A False by simp
    qed
  qed
qed

lemma pad2_props:
  assumes "0 \<le> k" "k < 100"
  shows "length (padStart 2 (CHR ''0'') (toString k)) = 2"
    "readNat (padStart 2 (CHR ''0'') (toString k)) = nat k"
    "\<forall>c \<in> set (padStart 2 (CHR ''0'') (toString k)). isDigit c"
proof -
  define n where "n = nat k"
  have t: "toString k = showNat n" unfolding toString_def n_def using assms by simp
  have n: "n < 100" unfolding n_def using assms by simp
  have z: "isDigit (CHR ''0'')" "digitVal (CHR ''0'') = 0"
    unfolding isDigit_def digitVal_def by simp_all
  have "length (padStart 2 (CHR ''0'') (showNat n)) = 2 \<and>
        readNat (padStart 2 (CHR ''0'') (showNat n)) = n \<and>
        (\<forall>c \<in> set (padStart 2 (CHR ''0'') (showNat n)). isDigit c)"
  proof (cases "n < 10")
    case True
    then have s: "showNat n = [digitChar n]" using showNat.simps[of n] by simp
    show ?thesis unfolding s padStart_def using digitChar_props[OF True] z
      by (simp add: readNat_def)
  next
    case False
    have d: "n div 10 < 10" using n by simp
    have m: "n mod 10 < 10" by simp
    have s: "showNat n = [digitChar (n div 10), digitChar (n mod 10)]"
      using False d showNat.simps[of n] showNat.simps[of "n div 10"] by simp
    show ?thesis unfolding s padStart_def using digitChar_props[OF d] digitChar_props[OF m]
      by (simp add: readNat_def)
  qed
  then show "length (padStart 2 (CHR ''0'') (toString k)) = 2"
    "readNat (padStart 2 (CHR ''0'') (toString k)) = nat k"
    "\<forall>c \<in> set (padStart 2 (CHR ''0'') (toString k)). isDigit c"
    unfolding t n_def by simp_all
qed

lemma month_date_range:
  "0 \<le> getMonth d \<and> getMonth d \<le> 11 \<and> 1 \<le> getDate d \<and> getDate d \<le> 31"
proof -
  define w where "w = DayWithinYear d"
  define l where "l = InLeapYear d"
  have r: "0 \<le> w" "w < DaysInYear (YearFromTime d)"
    using DayWithinYear_range[of d] unfolding w_def by simp_all
  have l: "l = (if DaysInYear (YearFromTime d) = 366 then 1 else 0)"
    unfolding l_def InLeapYear_def by simp
  have dy: "DaysInYear (YearFromTime d) = 365 + l"
    unfolding l DaysInYear_def by simp
  have l01: "l = 0 \<or> l = 1" unfolding l by simp
  have m: "0 \<le> getMonth d \<and> getMonth d \<le> 11"
    unfolding getMonth_def MonthFromTime_def Let_def by simp
  have "1 \<le> getDate d \<and> getDate d \<le> 31"
    unfolding getDate_def DateFromTime_def MonthFromTime_def Let_def
      w_def[symmetric] l_def[symmetric]
    using r l01 unfolding dy by auto
  then show ?thesis using m by simp
qed

lemma formatDate_parts:
  "\<exists>mm dd. formatDate d = toString (getFullYear d) @ CHR ''-'' # mm @ CHR ''-'' # dd \<and>
     length mm = 2 \<and> length dd = 2 \<and> readNat mm = nat (getMonth d + 1) \<and>
     readNat dd = nat (getDate d) \<and> (\<forall>c \<in> set mm. isDigit c) \<and> (\<forall>c \<in> set dd. isDigit c)"
proof -
  have m: "0 \<le> getMonth d + 1" "getMonth d + 1 < 100" using month_date_range[of d] by simp_all
  have t: "0 \<le> getDate d" "getDate d < 100" using month_date_range[of d] by simp_all
  let ?mm = "padStart 2 (CHR ''0'') (toString (getMonth d + 1))"
  let ?dd = "padStart 2 (CHR ''0'') (toString (getDate d))"
  have "formatDate d = toString (getFullYear d) @ CHR ''-'' # ?mm @ CHR ''-'' # ?dd"
    unfolding formatDate_def Let_def by simp
  then have "formatDate d = toString (getFullYear d) @ CHR ''-'' # ?mm @ CHR ''-'' # ?dd \<and>
     length ?mm = 2 \<and> length ?dd = 2 \<and> readNat ?mm = nat (getMonth d + 1) \<and>
     readNat ?dd = nat (getDate d) \<and> (\<forall>c \<in> set ?mm. isDigit c) \<and> (\<forall>c \<in> set ?dd. isDigit c)"
    using pad2_props[OF m] pad2_props[OF t] by simp
  then show ?thesis by blast
qed

lemma Day_civil: "Day d = MakeDay (getFullYear d) (getMonth d) (getDate d)"
  using MakeDay_civil[of d 0] unfolding getFullYear_def getMonth_def getDate_def by simp

lemma formatDate_same_day: "(formatDate a = formatDate b) = (Day a = Day b)"
proof
  assume "Day a = Day b"
  then show "formatDate a = formatDate b"
    unfolding formatDate_def using civil_Day(2,3,4)[of a b] by simp
next
  assume e: "formatDate a = formatDate b"
  obtain ma da where A: "formatDate a = toString (getFullYear a) @ CHR ''-'' # ma @ CHR ''-'' # da"
    "length ma = 2" "length da = 2" "readNat ma = nat (getMonth a + 1)" "readNat da = nat (getDate a)"
    using formatDate_parts[of a] by blast
  obtain mb db where B: "formatDate b = toString (getFullYear b) @ CHR ''-'' # mb @ CHR ''-'' # db"
    "length mb = 2" "length db = 2" "readNat mb = nat (getMonth b + 1)" "readNat db = nat (getDate b)"
    using formatDate_parts[of b] by blast
  have "toString (getFullYear a) @ (CHR ''-'' # ma @ CHR ''-'' # da) =
        toString (getFullYear b) @ (CHR ''-'' # mb @ CHR ''-'' # db)"
    using e unfolding A(1) B(1) .
  moreover have "length (CHR ''-'' # ma @ CHR ''-'' # da) = length (CHR ''-'' # mb @ CHR ''-'' # db)"
    using A(2,3) B(2,3) by simp
  ultimately have y: "toString (getFullYear a) = toString (getFullYear b)"
    and rest: "CHR ''-'' # ma @ CHR ''-'' # da = CHR ''-'' # mb @ CHR ''-'' # db"
    by simp_all
  have "ma @ (CHR ''-'' # da) = mb @ (CHR ''-'' # db)" using rest by simp
  then have md: "ma = mb" "da = db" using A(2) B(2) by simp_all
  have Y: "getFullYear a = getFullYear b" using toString_inj[OF y] .
  have "nat (getMonth a + 1) = nat (getMonth b + 1)" using A(4) B(4) md by simp
  then have M: "getMonth a = getMonth b"
    using month_date_range[of a] month_date_range[of b] by arith
  have "nat (getDate a) = nat (getDate b)" using A(5) B(5) md by simp
  then have D: "getDate a = getDate b"
    using month_date_range[of a] month_date_range[of b] by arith
  show "Day a = Day b" unfolding Day_civil[of a] Day_civil[of b] Y M D ..
qed

text \<open>The keys of the day map are these strings too: different days have different keys.\<close>

lemma keyOfDate_same_day: "(keyOfDate a = keyOfDate b) = (Day a = Day b)"
proof -
  have "keyOfDate d = formatDate d" for d
    unfolding keyOfDate_def dateKey_def formatDate_def Let_def by simp
  then show ?thesis using formatDate_same_day by simp
qed

lemma showNat_four:
  assumes "1000 \<le> n" "n \<le> 9999"
  shows "length (showNat n) = 4"
proof -
  have a: "\<not> n < 10" "\<not> n div 10 < 10" "\<not> n div 10 div 10 < 10" "n div 10 div 10 div 10 < 10"
    using assms by simp_all
  show ?thesis
    using a showNat.simps[of n] showNat.simps[of "n div 10"] showNat.simps[of "n div 10 div 10"]
      showNat.simps[of "n div 10 div 10 div 10"] by simp
qed

lemma formatDate_isYMD:
  assumes "1000 \<le> getFullYear d" "getFullYear d \<le> 9999"
  shows "isYMD (formatDate d)"
proof -
  obtain mm dd where P: "formatDate d = toString (getFullYear d) @ CHR ''-'' # mm @ CHR ''-'' # dd"
    "length mm = 2" "length dd = 2" "\<forall>c \<in> set mm. isDigit c" "\<forall>c \<in> set dd. isDigit c"
    using formatDate_parts[of d] by blast
  define ys where "ys = toString (getFullYear d)"
  have ysn: "ys = showNat (nat (getFullYear d))" unfolding ys_def toString_def using assms by simp
  have ly: "length ys = 4" unfolding ysn by (rule showNat_four) (use assms in simp_all)
  have dy: "\<forall>c \<in> set ys. isDigit c" unfolding ysn using showNat_props by blast
  obtain y0 y1 y2 y3 where ys: "ys = [y0, y1, y2, y3]"
    using ly by (auto simp: length_Suc_conv eval_nat_numeral)
  obtain m0 m1 where mm: "mm = [m0, m1]"
    using P(2) by (auto simp: length_Suc_conv eval_nat_numeral)
  obtain d0 d1 where dd: "dd = [d0, d1]"
    using P(3) by (auto simp: length_Suc_conv eval_nat_numeral)
  have f: "formatDate d = [y0, y1, y2, y3, CHR ''-'', m0, m1, CHR ''-'', d0, d1]"
    unfolding P(1) ys_def[symmetric] ys mm dd by simp
  show ?thesis unfolding isYMD_def f using dy P(4,5) unfolding ys mm dd by simp
qed


subsection \<open>Drag and drop\<close>

lemma updateEntryDates_note:
  assumes "startDateProp cfg = Some (''note.'' @ sp)" "endDateProp cfg = Some (''note.'' @ ep)"
    "ep \<noteq> []"
  shows "updateEntryDates cfg newStart newEnd fm =
     (case newEnd of None \<Rightarrow> fm(sp \<mapsto> formatDate newStart)
      | Some ne \<Rightarrow> fm(sp \<mapsto> formatDate newStart, ep \<mapsto> formatDate ne))"
  unfolding updateEntryDates_def Let_def assms(1,2) truthy_def startsWith_def
  using assms(3) by (simp split: option.splits)

lemma handleEventDrop_start:
  "drop_start dropInfo = Some newStart \<Longrightarrow>
   handleEventDrop (Some (onEventDrop cfg)) dropInfo =
     Handled (updateEntryDates cfg newStart
       (case drop_originalEndDate dropInfo of None \<Rightarrow> None
        | Some orig \<Rightarrow> (case drop_end dropInfo of Some newEnd \<Rightarrow> Some (newEnd - msPerDay)
                        | None \<Rightarrow> Some newStart)))"
  unfolding handleEventDrop_def onEventDrop_def Let_def
  using setDate_shift[of _ "- 1"] by (simp split: option.splits)

lemma formatDate_2025:
  "formatDate (MakeDate 20177 0) = ''2025-03-30''"
  "formatDate (MakeDate 20179 0) = ''2025-04-01''"
  by code_simp+

text \<open>
  Take a configuration whose start and end properties are note properties (\<open>note.\<close> followed
  by the name, the end name not empty), and a drop of an event that had an original end date,
  for which the widget reports the new start \<open>S'\<close> and, as exclusive end, the day after \<open>E'\<close>.
  Then the drop is handled by writing the front matter: the start property becomes
  \<open>formatDate S'\<close> and the end property \<open>formatDate E'\<close>, nothing else changes. The string
  written for a date is the one written for exactly the dates of the same calendar day: it
  carries no time of day. The year is written as \<open>String(year)\<close>, so for years 1000 to 9999
  the string has the ten-character shape \<open>YYYY-MM-DD\<close>.
\<close>

lemma drop_writes_dates:
  assumes "startDateProp cfg = Some (''note.'' @ sp)"
    and "endDateProp cfg = Some (''note.'' @ ep)"
    and "ep \<noteq> []"
    and "drop_originalEndDate dropInfo = Some E"
    and "drop_start dropInfo = Some S'"
    and "drop_end dropInfo = Some (E' + msPerDay)"
  shows "handleEventDrop (Some (onEventDrop cfg)) dropInfo =
           Handled (updateEntryDates cfg S' (Some E'))
    \<and> updateEntryDates cfg S' (Some E') fm = fm(sp \<mapsto> formatDate S', ep \<mapsto> formatDate E')
    \<and> (sp \<noteq> ep \<longrightarrow> updateEntryDates cfg S' (Some E') fm sp = Some (formatDate S'))
    \<and> updateEntryDates cfg S' (Some E') fm ep = Some (formatDate E')
    \<and> Day (E' + msPerDay) = Day E' + 1
    \<and> (\<forall>d. (formatDate d = formatDate S') = (Day d = Day S'))
    \<and> (\<forall>d. (formatDate d = formatDate E') = (Day d = Day E'))
    \<and> (1000 \<le> getFullYear S' \<and> getFullYear S' \<le> 9999 \<longrightarrow> isYMD (formatDate S'))
    \<and> (1000 \<le> getFullYear E' \<and> getFullYear E' \<le> 9999 \<longrightarrow> isYMD (formatDate E'))"
proof -
  have c1: "handleEventDrop (Some (onEventDrop cfg)) dropInfo =
           Handled (updateEntryDates cfg S' (Some E'))"
    unfolding handleEventDrop_start[OF assms(5)] assms(4,6) by simp
  have u: "updateEntryDates cfg S' (Some E') fm = fm(sp \<mapsto> formatDate S', ep \<mapsto> formatDate E')"
    unfolding updateEntryDates_note[OF assms(1,2,3)] by simp
  have c3: "sp \<noteq> ep \<longrightarrow> updateEntryDates cfg S' (Some E') fm sp = Some (formatDate S')"
    unfolding u by simp
  have c4: "updateEntryDates cfg S' (Some E') fm ep = Some (formatDate E')"
    unfolding u by simp
  have c5: "Day (E' + msPerDay) = Day E' + 1" using shift_day[of E' 1] by simp
  have c6: "\<forall>d. (formatDate d = formatDate S') = (Day d = Day S')"
    using formatDate_same_day by blast
  have c7: "\<forall>d. (formatDate d = formatDate E') = (Day d = Day E')"
    using formatDate_same_day by blast
  have c8: "1000 \<le> getFullYear S' \<and> getFullYear S' \<le> 9999 \<longrightarrow> isYMD (formatDate S')"
    using formatDate_isYMD by blast
  have c9: "1000 \<le> getFullYear E' \<and> getFullYear E' \<le> 9999 \<longrightarrow> isYMD (formatDate E')"
    using formatDate_isYMD by blast
  show ?thesis
    by (rule conjI[OF c1 conjI[OF u conjI[OF c3 conjI[OF c4 conjI[OF c5 conjI[OF c6
          conjI[OF c7 conjI[OF c8 c9]]]]]]]])
qed

text \<open>
  A drop in the year 999: the event, which had an end date, is dropped so that the widget
  reports the start 0999-12-30 and the exclusive end 1000-01-01, the day after 0999-12-31.
\<close>

definition noteConfig :: CalendarConfig where
  "noteConfig = \<lparr>startDateProp = Some ''note.start'', endDateProp = Some ''note.end''\<rparr>"

definition earlyDrop :: "nat EventDropArg" where
  "earlyDrop =
     \<lparr>drop_entry = 1, drop_originalEndDate = Some (MakeDate (MakeDay 999 11 30) 0),
      drop_start = Some (MakeDate (MakeDay 999 11 30) 0),
      drop_end = Some (MakeDate (MakeDay 999 11 31) 0 + msPerDay)\<rparr>"

text \<open>The front matter a handled drop commits, from the front matter \<open>fm\<close>.\<close>

definition committed :: "(frontmatter \<Rightarrow> frontmatter) DropOutcome \<Rightarrow> frontmatter \<Rightarrow> frontmatter option"
  where
  "committed outcome fm = (case outcome of Reverted \<Rightarrow> None | Handled write \<Rightarrow> Some (write fm))"

text \<open>
  C4, at an input on which the strings written are not of the shape \<open>YYYY-MM-DD\<close>. For the
  drop to the start 0999-12-30 and the end 0999-12-31 the start property is set to the
  nine-character string 999-12-30 and the end property to 999-12-31: \<open>formatDate\<close> pads the
  month and the day to two digits and writes the year as it is, so a year below 1000 has fewer
  than four digits.
\<close>

theorem C4_unpadded_year:
  "map_option getFullYear (drop_start earlyDrop) = Some 999
   \<and> map_option (\<lambda>fm. (fm ''start'', fm ''end''))
        (committed (handleEventDrop (Some (onEventDrop noteConfig)) earlyDrop) Map.empty) =
       Some (Some ''999-12-30'', Some ''999-12-31'')
   \<and> formatDate (MakeDate (MakeDay 999 11 30) 0) = ''999-12-30''
   \<and> length (formatDate (MakeDate (MakeDay 999 11 30) 0)) = 9"
  by code_simp

lemma drop_single_day:
  assumes "startDateProp cfg = Some (''note.'' @ sp)" "endDateProp cfg = Some (''note.'' @ ep)"
    "ep \<noteq> []"
    "endDate e = Some ed" "dateOnly (startDate e) = dateOnly ed"
    "drop_originalEndDate dropInfo = originalEndDate (toEvent e)"
    "drop_start dropInfo = Some S'" "drop_end dropInfo = None"
  shows "ev_end (toEvent e) = None"
    "handleEventDrop (Some (onEventDrop cfg)) dropInfo = Handled (updateEntryDates cfg S' (Some S'))"
    "updateEntryDates cfg S' (Some S') fm = fm(sp \<mapsto> formatDate S', ep \<mapsto> formatDate S')"
proof -
  show "ev_end (toEvent e) = None" unfolding toEvent_end assms(4) using assms(5) by simp
  have o: "drop_originalEndDate dropInfo = Some ed"
    unfolding assms(6) toEvent_def Let_def using assms(4) by simp
  show "handleEventDrop (Some (onEventDrop cfg)) dropInfo =
          Handled (updateEntryDates cfg S' (Some S'))"
    unfolding handleEventDrop_start[OF assms(7)] o assms(8) by simp
  show "updateEntryDates cfg S' (Some S') fm = fm(sp \<mapsto> formatDate S', ep \<mapsto> formatDate S')"
    unfolding updateEntryDates_note[OF assms(1,2,3)] by simp
qed

lemma drop_no_end:
  assumes "startDateProp cfg = Some (''note.'' @ sp)" "endDateProp cfg = Some (''note.'' @ ep)"
    "ep \<noteq> []"
    "endDate e = None"
    "drop_originalEndDate dropInfo = originalEndDate (toEvent e)"
    "drop_start dropInfo = Some S'"
  shows "handleEventDrop (Some (onEventDrop cfg)) dropInfo = Handled (updateEntryDates cfg S' None)"
    "updateEntryDates cfg S' None fm = fm(sp \<mapsto> formatDate S')"
proof -
  have o: "drop_originalEndDate dropInfo = None"
    unfolding assms(5) toEvent_def Let_def using assms(4) by simp
  show "handleEventDrop (Some (onEventDrop cfg)) dropInfo = Handled (updateEntryDates cfg S' None)"
    unfolding handleEventDrop_start[OF assms(6)] o by simp
  show "updateEntryDates cfg S' None fm = fm(sp \<mapsto> formatDate S')"
    unfolding updateEntryDates_note[OF assms(1,2,3)] by simp
qed

text \<open>
  C5, as the code has it. With note properties configured for start and end: a single-day
  event whose entry has an end date (on the day of its start) is handed to the widget without
  an end; when it is dropped on a new day the widget reports no end, the handler takes the new
  start as the end to save ("use the start date as the end date"), and the write sets both the
  start property and the end property to the new day. No end date is written only when the
  entry had no end date: then the write sets the start property alone.
\<close>

theorem C5_single_day_drop:
  assumes "startDateProp cfg = Some (''note.'' @ sp)"
    and "endDateProp cfg = Some (''note.'' @ ep)"
    and "ep \<noteq> []"
    and "drop_originalEndDate dropInfo = originalEndDate (toEvent e)"
    and "drop_start dropInfo = Some S'"
  shows "(\<forall>ed. endDate e = Some ed \<and> dateOnly (startDate e) = dateOnly ed \<and>
              drop_end dropInfo = None \<longrightarrow>
           ev_end (toEvent e) = None \<and>
           handleEventDrop (Some (onEventDrop cfg)) dropInfo =
             Handled (updateEntryDates cfg S' (Some S')) \<and>
           updateEntryDates cfg S' (Some S') fm =
             fm(sp \<mapsto> formatDate S', ep \<mapsto> formatDate S'))
    \<and> (endDate e = None \<longrightarrow>
           handleEventDrop (Some (onEventDrop cfg)) dropInfo =
             Handled (updateEntryDates cfg S' None) \<and>
           updateEntryDates cfg S' None fm = fm(sp \<mapsto> formatDate S'))"
proof -
  have c1: "\<forall>ed. endDate e = Some ed \<and> dateOnly (startDate e) = dateOnly ed \<and>
              drop_end dropInfo = None \<longrightarrow>
           ev_end (toEvent e) = None \<and>
           handleEventDrop (Some (onEventDrop cfg)) dropInfo =
             Handled (updateEntryDates cfg S' (Some S')) \<and>
           updateEntryDates cfg S' (Some S') fm =
             fm(sp \<mapsto> formatDate S', ep \<mapsto> formatDate S')"
    using drop_single_day[OF assms(1,2,3) _ _ assms(4,5)] by blast
  have c2: "endDate e = None \<longrightarrow>
           handleEventDrop (Some (onEventDrop cfg)) dropInfo =
             Handled (updateEntryDates cfg S' None) \<and>
           updateEntryDates cfg S' None fm = fm(sp \<mapsto> formatDate S')"
    using drop_no_end[OF assms(1,2,3) _ assms(4,5)] by blast
  show ?thesis by (rule conjI[OF c1 c2])
qed

theorem C5_single_day_drop_witness:
  "updateEntryDates \<lparr>startDateProp = Some ''note.start'', endDateProp = Some ''note.end''\<rparr>
        (MakeDate 20179 0) (Some (MakeDate 20179 0))
        [''start'' \<mapsto> ''2025-03-30'', ''end'' \<mapsto> ''2025-03-30''] =
      [''start'' \<mapsto> ''2025-04-01'', ''end'' \<mapsto> ''2025-04-01'']"
proof -
  let ?cfg = "\<lparr>startDateProp = Some ''note.start'', endDateProp = Some ''note.end''\<rparr>"
  let ?e = "\<lparr>entry = (1::nat), startDate = MakeDate 20177 0, endDate = Some (MakeDate 20177 0)\<rparr>"
  let ?drop = "\<lparr>drop_entry = (1::nat), drop_originalEndDate = originalEndDate (toEvent ?e),
      drop_start = Some (MakeDate 20179 0), drop_end = None\<rparr>"
  let ?fm = "[''start'' \<mapsto> ''2025-03-30'', ''end'' \<mapsto> ''2025-03-30'']"
  have a1: "startDateProp ?cfg = Some (''note.'' @ ''start'')" by simp
  have a2: "endDateProp ?cfg = Some (''note.'' @ ''end'')" by simp
  have a3: "''end'' \<noteq> []" by simp
  have a4: "drop_originalEndDate ?drop = originalEndDate (toEvent ?e)" by simp
  have a5: "drop_start ?drop = Some (MakeDate 20179 0)" by simp
  have h: "endDate ?e = Some (MakeDate 20177 0) \<and>
           dateOnly (startDate ?e) = dateOnly (MakeDate 20177 0) \<and> drop_end ?drop = None"
    by simp
  note c = conjunct1[OF C5_single_day_drop[OF a1 a2 a3 a4 a5, of ?fm]]
  have "updateEntryDates ?cfg (MakeDate 20179 0) (Some (MakeDate 20179 0)) ?fm =
          ?fm(''start'' \<mapsto> formatDate (MakeDate 20179 0), ''end'' \<mapsto> formatDate (MakeDate 20179 0))"
    using c h by blast
  then show ?thesis unfolding formatDate_2025 by simp
qed

theorem C5_counterexample:
  "ev_end (toEvent \<lparr>entry = (1::nat), startDate = MakeDate 20177 0,
                     endDate = Some (MakeDate 20177 0)\<rparr>) = None
   \<and> handleEventDrop
       (Some (onEventDrop \<lparr>startDateProp = Some ''note.start'', endDateProp = Some ''note.end''\<rparr>))
       \<lparr>drop_entry = (1::nat),
        drop_originalEndDate = originalEndDate (toEvent \<lparr>entry = (1::nat),
           startDate = MakeDate 20177 0, endDate = Some (MakeDate 20177 0)\<rparr>),
        drop_start = Some (MakeDate 20179 0), drop_end = None\<rparr> =
     Handled (updateEntryDates \<lparr>startDateProp = Some ''note.start'', endDateProp = Some ''note.end''\<rparr>
               (MakeDate 20179 0) (Some (MakeDate 20179 0)))
   \<and> updateEntryDates \<lparr>startDateProp = Some ''note.start'', endDateProp = Some ''note.end''\<rparr>
        (MakeDate 20179 0) (Some (MakeDate 20179 0))
        [''start'' \<mapsto> ''2025-03-30'', ''end'' \<mapsto> ''2025-03-30''] ''end'' = Some ''2025-04-01''
   \<and> [''start'' \<mapsto> ''2025-03-30'', ''end'' \<mapsto> ''2025-03-30''] ''end'' \<noteq> Some ''2025-04-01''"
proof -
  let ?cfg = "\<lparr>startDateProp = Some ''note.start'', endDateProp = Some ''note.end''\<rparr>"
  let ?e = "\<lparr>entry = (1::nat), startDate = MakeDate 20177 0, endDate = Some (MakeDate 20177 0)\<rparr>"
  let ?drop = "\<lparr>drop_entry = (1::nat), drop_originalEndDate = originalEndDate (toEvent ?e),
      drop_start = Some (MakeDate 20179 0), drop_end = None\<rparr>"
  let ?fm = "[''start'' \<mapsto> ''2025-03-30'', ''end'' \<mapsto> ''2025-03-30'']"
  have a1: "startDateProp ?cfg = Some (''note.'' @ ''start'')" by simp
  have a2: "endDateProp ?cfg = Some (''note.'' @ ''end'')" by simp
  have a3: "''end'' \<noteq> []" by simp
  have a4: "endDate ?e = Some (MakeDate 20177 0)" by simp
  have a5: "dateOnly (startDate ?e) = dateOnly (MakeDate 20177 0)" by simp
  have a6: "drop_originalEndDate ?drop = originalEndDate (toEvent ?e)" by simp
  have a7: "drop_start ?drop = Some (MakeDate 20179 0)" by simp
  have a8: "drop_end ?drop = None" by simp
  note d1 = drop_single_day(1)[OF a1 a2 a3 a4 a5 a6 a7 a8]
  note d2 = drop_single_day(2)[OF a1 a2 a3 a4 a5 a6 a7 a8]
  note d3 = drop_single_day(3)[OF a1 a2 a3 a4 a5 a6 a7 a8, of ?fm]
  have w: "updateEntryDates ?cfg (MakeDate 20179 0) (Some (MakeDate 20179 0)) ?fm ''end'' =
             Some ''2025-04-01''"
    unfolding d3 formatDate_2025 by simp
  have o: "?fm ''end'' \<noteq> Some ''2025-04-01''" by simp
  show ?thesis by (rule conjI[OF d1 conjI[OF d2 conjI[OF w o]]])
qed


section \<open>The weekday-aligned year (LinearReactView, \<open>renderAlignedYear\<close>)\<close>




























section \<open>View options (\<open>CalendarView\<close> and \<open>LinearView\<close>)\<close>

text \<open>
  JavaScript numbers are modelled by their mathematical values: \<open>NaN\<close>, the two infinities and
  the rationals. Rounding to IEEE doubles, overflow to an infinity and the sign of zero are not
  modelled. \<open>config.get(key)\<close> is a function from keys to values.
\<close>

datatype jsnumber = NaN | NegInfinity | Finite rat | PosInfinity

datatype jsvalue = JUndefined | JNull | JBoolean bool | JNumber jsnumber | JString string | JObject

type_synonym ViewConfig = "string \<Rightarrow> jsvalue"

fun Math_min :: "jsnumber \<Rightarrow> jsnumber \<Rightarrow> jsnumber" where
  "Math_min NaN b = NaN"
| "Math_min a NaN = NaN"
| "Math_min NegInfinity b = NegInfinity"
| "Math_min a NegInfinity = NegInfinity"
| "Math_min PosInfinity b = b"
| "Math_min a PosInfinity = a"
| "Math_min (Finite x) (Finite y) = Finite (min x y)"

fun Math_max :: "jsnumber \<Rightarrow> jsnumber \<Rightarrow> jsnumber" where
  "Math_max NaN b = NaN"
| "Math_max a NaN = NaN"
| "Math_max PosInfinity b = PosInfinity"
| "Math_max a PosInfinity = PosInfinity"
| "Math_max NegInfinity b = b"
| "Math_max a NegInfinity = a"
| "Math_max (Finite x) (Finite y) = Finite (max x y)"

text \<open>\<open>a / d\<close> for a finite divisor \<open>d > 0\<close>.\<close>

fun numDivide :: "jsnumber \<Rightarrow> rat \<Rightarrow> jsnumber" where
  "numDivide NaN d = NaN"
| "numDivide NegInfinity d = NegInfinity"
| "numDivide PosInfinity d = PosInfinity"
| "numDivide (Finite x) d = Finite (x / d)"

subsection \<open>\<open>Number(string)\<close>\<close>

text \<open>
  \<open>StringToNumber\<close> of ECMA-262 on strings of 8-bit characters: white space is trimmed, the
  empty string is 0, then a binary, octal or hexadecimal integer literal or a signed decimal
  literal (\<open>Infinity\<close>, digits with an optional fraction and exponent); anything else is
  \<open>NaN\<close>.
\<close>

definition isWhiteSpace :: "char \<Rightarrow> bool" where
  "isWhiteSpace c = (of_char c \<in> {9, 10, 11, 12, 13, 32, 160 :: nat})"

definition trimString :: "string \<Rightarrow> string" where
  "trimString s = rev (dropWhile isWhiteSpace (rev (dropWhile isWhiteSpace s)))"

definition digitOf :: "char \<Rightarrow> nat option" where
  "digitOf c =
     (let n = (of_char c :: nat)
      in if 48 \<le> n \<and> n \<le> 57 then Some (n - 48)
         else if 97 \<le> n \<and> n \<le> 102 then Some (n - 87)
         else if 65 \<le> n \<and> n \<le> 70 then Some (n - 55)
         else None)"

fun radixValue :: "nat \<Rightarrow> nat \<Rightarrow> string \<Rightarrow> nat option" where
  "radixValue r acc [] = Some acc"
| "radixValue r acc (c # cs) =
     (case digitOf c of
        None \<Rightarrow> None
      | Some v \<Rightarrow> if v < r then radixValue r (acc * r + v) cs else None)"

definition nonDecimalLiteral :: "string \<Rightarrow> nat option" where
  "nonDecimalLiteral t =
     (case t of
        z # p # ds \<Rightarrow>
          if z \<noteq> CHR ''0'' \<or> ds = [] then None
          else if p = CHR ''x'' \<or> p = CHR ''X'' then radixValue 16 0 ds
          else if p = CHR ''o'' \<or> p = CHR ''O'' then radixValue 8 0 ds
          else if p = CHR ''b'' \<or> p = CHR ''B'' then radixValue 2 0 ds
          else None
      | _ \<Rightarrow> None)"

definition decimalDigits :: "string \<Rightarrow> int option" where
  "decimalDigits ds = (if ds \<noteq> [] \<and> list_all isDigit ds then Some (int (readNat ds)) else None)"

definition exponentPart :: "string \<Rightarrow> int option" where
  "exponentPart r =
     (case r of
        [] \<Rightarrow> Some 0
      | c # ds \<Rightarrow>
          if c = CHR ''e'' \<or> c = CHR ''E''
          then (case ds of
                  s # n \<Rightarrow>
                    if s = CHR ''+'' then decimalDigits n
                    else if s = CHR ''-'' then map_option uminus (decimalDigits n)
                    else decimalDigits ds
                | [] \<Rightarrow> None)
          else None)"

definition scale10 :: "rat \<Rightarrow> int \<Rightarrow> rat" where
  "scale10 x k = (if 0 \<le> k then x * 10 ^ nat k else x / 10 ^ nat (- k))"

definition unsignedDecimal :: "string \<Rightarrow> jsnumber" where
  "unsignedDecimal r =
     (if r = ''Infinity'' then PosInfinity
      else
        let ip = takeWhile isDigit r;
            r1 = dropWhile isDigit r;
            fp = (case r1 of c # r' \<Rightarrow> if c = CHR ''.'' then takeWhile isDigit r' else [] | [] \<Rightarrow> []);
            r2 = (case r1 of c # r' \<Rightarrow> if c = CHR ''.'' then dropWhile isDigit r' else r1 | [] \<Rightarrow> [])
        in if ip = [] \<and> fp = [] then NaN
           else case exponentPart r2 of
                  None \<Rightarrow> NaN
                | Some e \<Rightarrow> Finite (scale10 (of_nat (readNat (ip @ fp))) (e - int (length fp))))"

fun negate :: "jsnumber \<Rightarrow> jsnumber" where
  "negate NaN = NaN"
| "negate NegInfinity = PosInfinity"
| "negate PosInfinity = NegInfinity"
| "negate (Finite x) = Finite (- x)"

definition StringToNumber :: "string \<Rightarrow> jsnumber" where
  "StringToNumber s =
     (let t = trimString s
      in if t = [] then Finite 0
         else case nonDecimalLiteral t of
                Some n \<Rightarrow> Finite (of_nat n)
              | None \<Rightarrow>
                  (case t of
                     c # r \<Rightarrow>
                       if c = CHR ''+'' then unsignedDecimal r
                       else if c = CHR ''-'' then negate (unsignedDecimal r)
                       else unsignedDecimal t
                   | [] \<Rightarrow> Finite 0))"

subsection \<open>\<open>getOverlayOpacity\<close>, \<open>getBooleanConfig\<close>, \<open>loadConfig\<close>\<close>

text \<open>
  \<open>CalendarView.getOverlayOpacity\<close> and \<open>LinearView.getOverlayOpacity\<close> have the same body.
\<close>

definition getOverlayOpacity :: "ViewConfig \<Rightarrow> jsnumber" where
  "getOverlayOpacity config =
     (let rawValue = config ''propertyOverlayOpacity'';
          numericValue =
            (case rawValue of
               JNumber n \<Rightarrow> Some n
             | JString s \<Rightarrow> Some (StringToNumber s)
             | _ \<Rightarrow> None)
      in case numericValue of
           None \<Rightarrow> Finite (6 / 10)
         | Some n \<Rightarrow>
             if n = NaN then Finite (6 / 10)
             else let clamped = Math_max (Finite 0) (Math_min (Finite 100) n)
                  in numDivide clamped 100)"

definition getBooleanConfig :: "ViewConfig \<Rightarrow> string \<Rightarrow> bool \<Rightarrow> bool" where
  "getBooleanConfig config key fallback =
     (case config key of JBoolean b \<Rightarrow> b | _ \<Rightarrow> fallback)"

text \<open>
  The fields of \<open>LinearView\<close> that \<open>loadConfig\<close> sets and the claims are about, and the
  properties \<open>renderReactLinearCalendar\<close> passes on from them.
\<close>

record LinearViewState =
  this_propertyOverlayOpacity :: jsnumber
  this_alignWeekdays :: bool
  this_highlightWeekends :: bool

definition loadConfig :: "ViewConfig \<Rightarrow> LinearViewState" where
  "loadConfig config =
     (let align = getBooleanConfig config ''alignWeekdays'' False
      in \<lparr>this_propertyOverlayOpacity = getOverlayOpacity config,
          this_alignWeekdays = align,
          this_highlightWeekends =
            (if align then getBooleanConfig config ''highlightWeekends'' False else False)\<rparr>)"

record LinearProps =
  alignWeekdays :: bool
  highlightWeekends :: bool

definition renderProps :: "LinearViewState \<Rightarrow> LinearProps" where
  "renderProps st =
     \<lparr>alignWeekdays = this_alignWeekdays st, highlightWeekends = this_highlightWeekends st\<rparr>"

text \<open>
  \<open>renderCell\<close>: the condition under which the weekday of the cell is computed, and
  \<open>isWeekend\<close>.
\<close>

definition weekendGuard :: "LinearProps \<Rightarrow> bool \<Rightarrow> bool" where
  "weekendGuard props valid = (highlightWeekends props \<and> \<not> alignWeekdays props \<and> valid)"

definition isWeekend :: "LinearProps \<Rightarrow> int \<Rightarrow> int \<Rightarrow> int \<Rightarrow> bool \<Rightarrow> bool" where
  "isWeekend props year month day valid =
     (if weekendGuard props valid
      then (let d = newDate year month day; dow = getDay d in dow = 0 \<or> dow = 6)
      else False)"

lemma StringToNumber_70: "StringToNumber ''70'' = Finite 70"
  by code_simp

lemma StringToNumber_abc: "StringToNumber ''abc'' = NaN"
  by code_simp

lemma clamp_cases:
  "n \<noteq> NaN \<Longrightarrow>
   numDivide (Math_max (Finite 0) (Math_min (Finite 100) n)) 100 =
     (case n of Finite x \<Rightarrow> Finite (max 0 (min 100 x) / 100)
      | PosInfinity \<Rightarrow> Finite 1 | NegInfinity \<Rightarrow> Finite 0 | NaN \<Rightarrow> NaN)"
  by (cases n) simp_all

lemma getOverlayOpacity_number:
  "config ''propertyOverlayOpacity'' = JNumber n \<Longrightarrow> n \<noteq> NaN \<Longrightarrow>
   getOverlayOpacity config =
     (case n of Finite x \<Rightarrow> Finite (max 0 (min 100 x) / 100)
      | PosInfinity \<Rightarrow> Finite 1 | NegInfinity \<Rightarrow> Finite 0 | NaN \<Rightarrow> NaN)"
  unfolding getOverlayOpacity_def Let_def using clamp_cases[of n] by simp

lemma getOverlayOpacity_string:
  "config ''propertyOverlayOpacity'' = JString s \<Longrightarrow> StringToNumber s \<noteq> NaN \<Longrightarrow>
   getOverlayOpacity config =
     (case StringToNumber s of Finite x \<Rightarrow> Finite (max 0 (min 100 x) / 100)
      | PosInfinity \<Rightarrow> Finite 1 | NegInfinity \<Rightarrow> Finite 0 | NaN \<Rightarrow> NaN)"
  unfolding getOverlayOpacity_def Let_def using clamp_cases[of "StringToNumber s"] by simp

lemma getOverlayOpacity_default:
  "config ''propertyOverlayOpacity'' = JNumber NaN \<or>
   (\<exists>s. config ''propertyOverlayOpacity'' = JString s \<and> StringToNumber s = NaN) \<or>
   (\<forall>n. config ''propertyOverlayOpacity'' \<noteq> JNumber n) \<and>
   (\<forall>s. config ''propertyOverlayOpacity'' \<noteq> JString s)
   \<Longrightarrow> getOverlayOpacity config = Finite (6 / 10)"
  unfolding getOverlayOpacity_def Let_def
  by (cases "config ''propertyOverlayOpacity''") auto

lemma getOverlayOpacity_range:
  "\<exists>x. getOverlayOpacity config = Finite x \<and> 0 \<le> x \<and> x \<le> 1"
proof -
  have b: "0 \<le> max 0 (min 100 x) / 100 \<and> max 0 (min 100 x) / 100 \<le> 1" for x :: rat
    by (simp add: max_def min_def)
  have r: "\<exists>x. (case n of Finite x \<Rightarrow> Finite (max 0 (min 100 x) / 100)
      | PosInfinity \<Rightarrow> Finite 1 | NegInfinity \<Rightarrow> Finite 0 | NaN \<Rightarrow> Finite (6 / 10)) = Finite x
      \<and> 0 \<le> x \<and> x \<le> 1" for n
  proof (cases n)
    case NaN
    show ?thesis unfolding NaN by (rule exI[of _ "6 / 10"]) simp
  next
    case NegInfinity
    show ?thesis unfolding NegInfinity by (rule exI[of _ 0]) simp
  next
    case (Finite x)
    show ?thesis unfolding Finite by (rule exI[of _ "max 0 (min 100 x) / 100"]) (use b in simp)
  next
    case PosInfinity
    show ?thesis unfolding PosInfinity by (rule exI[of _ 1]) simp
  qed
  have "getOverlayOpacity config =
     (case (case config ''propertyOverlayOpacity'' of JNumber n \<Rightarrow> n
            | JString s \<Rightarrow> StringToNumber s | _ \<Rightarrow> NaN) of
        Finite x \<Rightarrow> Finite (max 0 (min 100 x) / 100)
      | PosInfinity \<Rightarrow> Finite 1 | NegInfinity \<Rightarrow> Finite 0 | NaN \<Rightarrow> Finite (6 / 10))"
  proof (cases "config ''propertyOverlayOpacity''")
    case (JNumber n)
    then show ?thesis
      using getOverlayOpacity_number[of config n, OF JNumber] getOverlayOpacity_default[of config]
      by (cases n) simp_all
  next
    case (JString s)
    then show ?thesis
      using getOverlayOpacity_string[of config s, OF JString] getOverlayOpacity_default[of config]
      by (cases "StringToNumber s") auto
  qed (use getOverlayOpacity_default[of config] in simp_all)
  then show ?thesis using r by simp
qed


text \<open>
  C6. The option \<open>propertyOverlayOpacity\<close> given as the string \<open>"70"\<close> is normalised to 0.7;
  given as \<open>"abc"\<close> it falls back to 0.6. For a number other than \<open>NaN\<close>, and for a string
  that \<open>Number\<close> converts to a number other than \<open>NaN\<close>, the result is that number clamped
  into the range from 0 to 100 and divided by 100 (so 1 for \<open>Infinity\<close> and 0 for
  \<open>-Infinity\<close>). In every case, the fallback included, the result is a finite number from 0
  to 1.
\<close>

theorem C6_overlay_opacity:
  "(config ''propertyOverlayOpacity'' = JString ''70'' \<longrightarrow>
      getOverlayOpacity config = Finite (7 / 10))
   \<and> (config ''propertyOverlayOpacity'' = JString ''abc'' \<longrightarrow>
      getOverlayOpacity config = Finite (6 / 10))
   \<and> (\<forall>n. config ''propertyOverlayOpacity'' = JNumber n \<and> n \<noteq> NaN \<longrightarrow>
         getOverlayOpacity config =
           (case n of Finite x \<Rightarrow> Finite (max 0 (min 100 x) / 100)
            | PosInfinity \<Rightarrow> Finite 1 | NegInfinity \<Rightarrow> Finite 0 | NaN \<Rightarrow> NaN))
   \<and> (\<forall>s. config ''propertyOverlayOpacity'' = JString s \<and> StringToNumber s \<noteq> NaN \<longrightarrow>
         getOverlayOpacity config =
           (case StringToNumber s of Finite x \<Rightarrow> Finite (max 0 (min 100 x) / 100)
            | PosInfinity \<Rightarrow> Finite 1 | NegInfinity \<Rightarrow> Finite 0 | NaN \<Rightarrow> NaN))
   \<and> (\<exists>x. getOverlayOpacity config = Finite x \<and> 0 \<le> x \<and> x \<le> 1)
   \<and> this_propertyOverlayOpacity (loadConfig config) = getOverlayOpacity config"
proof -
  have c1: "config ''propertyOverlayOpacity'' = JString ''70'' \<longrightarrow>
      getOverlayOpacity config = Finite (7 / 10)"
  proof
    assume a: "config ''propertyOverlayOpacity'' = JString ''70''"
    show "getOverlayOpacity config = Finite (7 / 10)"
      using getOverlayOpacity_string[of config "''70''", OF a] unfolding StringToNumber_70 by simp
  qed
  have c2: "config ''propertyOverlayOpacity'' = JString ''abc'' \<longrightarrow>
      getOverlayOpacity config = Finite (6 / 10)"
    using getOverlayOpacity_default[of config] StringToNumber_abc by blast
  have c3: "\<forall>n. config ''propertyOverlayOpacity'' = JNumber n \<and> n \<noteq> NaN \<longrightarrow>
         getOverlayOpacity config =
           (case n of Finite x \<Rightarrow> Finite (max 0 (min 100 x) / 100)
            | PosInfinity \<Rightarrow> Finite 1 | NegInfinity \<Rightarrow> Finite 0 | NaN \<Rightarrow> NaN)"
    using getOverlayOpacity_number by blast
  have c4: "\<forall>s. config ''propertyOverlayOpacity'' = JString s \<and> StringToNumber s \<noteq> NaN \<longrightarrow>
         getOverlayOpacity config =
           (case StringToNumber s of Finite x \<Rightarrow> Finite (max 0 (min 100 x) / 100)
            | PosInfinity \<Rightarrow> Finite 1 | NegInfinity \<Rightarrow> Finite 0 | NaN \<Rightarrow> NaN)"
    using getOverlayOpacity_string by blast
  have c5: "\<exists>x. getOverlayOpacity config = Finite x \<and> 0 \<le> x \<and> x \<le> 1"
    by (rule getOverlayOpacity_range)
  have c6: "this_propertyOverlayOpacity (loadConfig config) = getOverlayOpacity config"
    unfolding loadConfig_def Let_def by simp
  show ?thesis by (rule conjI[OF c1 conjI[OF c2 conjI[OF c3 conjI[OF c4 conjI[OF c5 c6]]]]])
qed

theorem C6_overlay_opacity_witness:
  "getOverlayOpacity (\<lambda>k. if k = ''propertyOverlayOpacity'' then JString ''70'' else JUndefined)
     = Finite (7 / 10)
   \<and> getOverlayOpacity (\<lambda>k. if k = ''propertyOverlayOpacity'' then JString ''abc'' else JUndefined)
     = Finite (6 / 10)
   \<and> getOverlayOpacity (\<lambda>k. if k = ''propertyOverlayOpacity'' then JNumber (Finite 150) else JUndefined)
     = Finite 1"
proof -
  let ?a = "\<lambda>k. if k = ''propertyOverlayOpacity'' then JString ''70'' else JUndefined"
  let ?b = "\<lambda>k. if k = ''propertyOverlayOpacity'' then JString ''abc'' else JUndefined"
  let ?c = "\<lambda>k. if k = ''propertyOverlayOpacity'' then JNumber (Finite 150) else JUndefined"
  have A: "getOverlayOpacity ?a = Finite (7 / 10)"
    using conjunct1[OF C6_overlay_opacity[of ?a]] by simp
  have B: "getOverlayOpacity ?b = Finite (6 / 10)"
    using conjunct1[OF conjunct2[OF C6_overlay_opacity[of ?b]]] by simp
  have "?c ''propertyOverlayOpacity'' = JNumber (Finite 150) \<and> Finite 150 \<noteq> NaN" by simp
  then have "getOverlayOpacity ?c =
      (case Finite 150 of Finite x \<Rightarrow> Finite (max 0 (min 100 x) / 100)
            | PosInfinity \<Rightarrow> Finite 1 | NegInfinity \<Rightarrow> Finite 0 | NaN \<Rightarrow> NaN)"
    using conjunct1[OF conjunct2[OF conjunct2[OF C6_overlay_opacity[of ?c]]]] by blast
  then have C: "getOverlayOpacity ?c = Finite 1" by simp
  show ?thesis using A B C by simp
qed

text \<open>
  C8. When \<open>alignWeekdays\<close> is off, \<open>loadConfig\<close> sets \<open>highlightWeekends\<close> to false whatever
  the configured value is: the effective flag is true exactly when both options are configured
  as \<open>true\<close>. With the properties that the view passes on, the condition under which
  \<open>renderCell\<close> computes the weekday of a cell never holds, so no cell is marked as a weekend:
  the condition asks for \<open>highlightWeekends\<close> without \<open>alignWeekdays\<close>, and the effective
  \<open>highlightWeekends\<close> is on only together with \<open>alignWeekdays\<close>.
\<close>

theorem C8_weekend_highlight:
  "(\<not> this_alignWeekdays (loadConfig config) \<longrightarrow> \<not> this_highlightWeekends (loadConfig config))
   \<and> this_alignWeekdays (loadConfig config) = (config ''alignWeekdays'' = JBoolean True)
   \<and> this_highlightWeekends (loadConfig config) =
       (config ''alignWeekdays'' = JBoolean True \<and> config ''highlightWeekends'' = JBoolean True)
   \<and> \<not> weekendGuard (renderProps (loadConfig config)) valid
   \<and> \<not> isWeekend (renderProps (loadConfig config)) year month day valid"
proof -
  have b: "getBooleanConfig config key False = (config key = JBoolean True)" for key
    unfolding getBooleanConfig_def by (cases "config key") auto
  have a: "this_alignWeekdays (loadConfig config) = (config ''alignWeekdays'' = JBoolean True)"
    unfolding loadConfig_def Let_def b by simp
  have h: "this_highlightWeekends (loadConfig config) =
       (config ''alignWeekdays'' = JBoolean True \<and> config ''highlightWeekends'' = JBoolean True)"
    unfolding loadConfig_def Let_def b by simp
  have c1: "\<not> this_alignWeekdays (loadConfig config) \<longrightarrow>
            \<not> this_highlightWeekends (loadConfig config)"
    unfolding a h by simp
  have g: "\<not> weekendGuard (renderProps (loadConfig config)) valid"
    unfolding weekendGuard_def renderProps_def using a h by simp
  have w: "\<not> isWeekend (renderProps (loadConfig config)) year month day valid"
    unfolding isWeekend_def using g by simp
  show ?thesis by (rule conjI[OF c1 conjI[OF a conjI[OF h conjI[OF g w]]]])
qed

theorem C8_weekend_highlight_witness:
  "\<not> this_highlightWeekends
       (loadConfig (\<lambda>k. if k = ''highlightWeekends'' then JBoolean True else JUndefined))"
proof -
  let ?c = "\<lambda>k. if k = ''highlightWeekends'' then JBoolean True else JUndefined"
  note c = C8_weekend_highlight[of ?c]
  have "this_alignWeekdays (loadConfig ?c) = (?c ''alignWeekdays'' = JBoolean True)"
    using conjunct1[OF conjunct2[OF c]] .
  then have "\<not> this_alignWeekdays (loadConfig ?c)" by simp
  then show ?thesis using conjunct1[OF c] by blast
qed


end
